theory Spec2Isabelle
  imports Complex_Main "HOL-Library.Log_Nat" "HOL-Library.Sublist"
begin

section \<open>Python strings\<close>

text \<open>
  A Python \<open>str\<close> is modelled as a \<open>string\<close> whose characters are the code points
  below 256 (Latin-1).  \<open>str.lower\<close> maps the upper-case letters of that range
  (A-Z, and U+00C0..U+00DE without the multiplication sign U+00D7) to the code point
  32 above and leaves every other character alone.
\<close>

definition lower_char :: "char \<Rightarrow> char" where
  "lower_char c =
     (let n = (of_char c :: nat) in
      if (65 \<le> n \<and> n \<le> 90) \<or> (192 \<le> n \<and> n \<le> 214) \<or> (216 \<le> n \<and> n \<le> 222)
      then char_of (n + 32) else c)"

definition lower :: "string \<Rightarrow> string" where
  "lower s = map lower_char s"

text \<open>\<open>s.startswith(p)\<close>.\<close>

fun startswith :: "string \<Rightarrow> string \<Rightarrow> bool" where
  "startswith s [] = True"
| "startswith [] (p # ps) = False"
| "startswith (c # cs) (p # ps) = (c = p \<and> startswith cs ps)"

text \<open>\<open>k in s\<close> for two strings: \<open>k\<close> occurs in \<open>s\<close> as a contiguous block.\<close>

fun contains :: "string \<Rightarrow> string \<Rightarrow> bool" where
  "contains [] k = (k = [])"
| "contains (c # cs) k = (startswith (c # cs) k \<or> contains cs k)"

text \<open>\<open>any(k in s for k in keywords)\<close>.\<close>

definition any_in :: "string list \<Rightarrow> string \<Rightarrow> bool" where
  "any_in keywords s = list_ex (\<lambda>k. contains s k) keywords"

section \<open>IEEE double arithmetic\<close>

text \<open>
  A Python \<open>float\<close> is a binary64 number.  Finite doubles are modelled by the rationals
  they denote; every arithmetic operation returns the exact result rounded to the
  nearest number with a 53-bit significand, ties to even.  The exponent range is not
  bounded: no value computed by the analyzer comes near overflow or the subnormals.
\<close>

definition rne :: "rat \<Rightarrow> int" where
  "rne q = (let f = \<lfloor>q\<rfloor>; r = q - of_int f in
     if r < 1 / 2 then f else if 1 / 2 < r then f + 1 else if even f then f else f + 1)"

text \<open>The binary exponent \<open>e\<close> of a positive rational: \<open>2^e \<le> x < 2^(e+1)\<close>.\<close>

definition ilog2 :: "rat \<Rightarrow> int" where
  "ilog2 x = (case quotient_of x of (p, q) \<Rightarrow>
     (let d = bitlen p - bitlen q in if 2 powi d \<le> x then d else d - 1))"

definition fl :: "rat \<Rightarrow> rat" where
  "fl x = (if x = 0 then 0 else
     (let u = 2 powi (ilog2 \<bar>x\<bar> - 52) in sgn x * of_int (rne (\<bar>x\<bar> / u)) * u))"

definition fmul :: "rat \<Rightarrow> rat \<Rightarrow> rat" where
  "fmul a b = fl (a * b)"

definition fadd :: "rat \<Rightarrow> rat \<Rightarrow> rat" where
  "fadd a b = fl (a + b)"

section \<open>The scorer\<close>

text \<open>
  \<^verbatim>\<open>
  def count_issues(analysis, keywords):
      return len([x for x in analysis if any(k in x.lower() for k in keywords)])
  \<close>
\<close>

definition count_issues :: "string list \<Rightarrow> string list \<Rightarrow> int" where
  "count_issues analysis keywords =
     int (length (filter (\<lambda>x. any_in keywords (lower x)) analysis))"

text \<open>\<open>max(0, min(100, x))\<close> on an \<open>int\<close> and on a \<open>float\<close>.\<close>

definition clamp :: "int \<Rightarrow> int" where
  "clamp x = max 0 (min 100 x)"

definition fclamp :: "rat \<Rightarrow> rat" where
  "fclamp x = max 0 (min 100 x)"

record scores =
  meta :: int
  content :: int
  technical :: int
  speed :: int
  security :: int
  links :: int
  overall :: rat

text \<open>The literals \<open>0.2, 0.25, 0.15, 0.15, 0.15, 0.1\<close> of the \<open>weights\<close> dictionary.\<close>

definition w_meta :: rat where "w_meta = fl (2 / 10)"
definition w_content :: rat where "w_content = fl (25 / 100)"
definition w_technical :: rat where "w_technical = fl (15 / 100)"
definition w_speed :: rat where "w_speed = fl (15 / 100)"
definition w_security :: rat where "w_security = fl (15 / 100)"
definition w_links :: rat where "w_links = fl (1 / 10)"

text \<open>
  \<open>sum(scores[k] * weights[k] for k in scores)\<close>: the dictionary is walked in insertion
  order, every product is an \<open>int\<close> times a \<open>float\<close>, and the running total starts at
  the integer 0.
\<close>

definition weighted_sum :: "(int \<times> rat) list \<Rightarrow> rat" where
  "weighted_sum kvs = foldl (\<lambda>acc (s, w). fadd acc (fmul (of_int s) w)) 0 kvs"

definition calculate_scores ::
  "string list \<Rightarrow> string list \<Rightarrow> string list \<Rightarrow> string list \<Rightarrow> string list \<Rightarrow> string list
     \<Rightarrow> scores" where
  "calculate_scores meta_analysis content_analysis technical_analysis
       speed_analysis security_analysis link_analysis =
     (let meta_score = 100 - count_issues meta_analysis [''missing'', ''too'', ''no''] * 15;
          content_score =
            100 - count_issues content_analysis [''missing'', ''too short'', ''multiple''] * 10;
          technical_score =
            100 - count_issues technical_analysis [''not'', ''slow'', ''needs''] * 20;
          speed_score = 100 - count_issues speed_analysis [''slow'', ''large''] * 25;
          security_score =
            100 - count_issues security_analysis [''not'', ''risk'', ''could not''] * 30;
          link_score = 100 - count_issues link_analysis [''broken'', ''invalid''] * 15;
          m = clamp meta_score; c = clamp content_score; t = clamp technical_score;
          sp = clamp speed_score; se = clamp security_score; l = clamp link_score;
          overall_score =
            weighted_sum [(m, w_meta), (c, w_content), (t, w_technical),
                          (sp, w_speed), (se, w_security), (l, w_links)]
      in \<lparr>meta = m, content = c, technical = t, speed = sp, security = se, links = l,
          overall = fclamp overall_score\<rparr>)"

section \<open>Reference definitions\<close>

text \<open>
  The findings of a list that count as issues for a keyword vocabulary: those whose
  lower-cased text has one of the keywords as a contiguous block.
\<close>

definition matched_findings :: "string list \<Rightarrow> string list \<Rightarrow> string list" where
  "matched_findings keywords fs = filter (\<lambda>x. \<exists>k\<in>set keywords. sublist k (lower x)) fs"

text \<open>The sub-score of a category: 100 minus the deduction per matched finding, cut to [0,100].\<close>

definition sub_score :: "int \<Rightarrow> string list \<Rightarrow> string list \<Rightarrow> int" where
  "sub_score deduction keywords fs =
     max 0 (min 100 (100 - deduction * int (length (matched_findings keywords fs))))"

section \<open>The suggestion generator\<close>

text \<open>\<open>s.replace(old, new)\<close>: every occurrence of \<open>old\<close>, found from the left
  without overlaps, becomes \<open>new\<close>.\<close>

function replace :: "string \<Rightarrow> string \<Rightarrow> string \<Rightarrow> string" where
  "replace s old new =
     (if old = [] then new @ concat (map (\<lambda>c. c # new) s)
      else if s = [] then []
      else if startswith s old then new @ replace (drop (length old) s) old new
      else hd s # replace (tl s) old new)"
  by pat_completeness auto
termination
  by (relation "measure (\<lambda>(s, old, new). length s)") auto

declare replace.simps [simp del]

definition issue_keywords :: "string list" where
  "issue_keywords =
     [''missing'', ''too'', ''no'', ''not'', ''slow'', ''large'', ''multiple'', ''broken'']"

definition rewrite :: "string \<Rightarrow> string" where
  "rewrite issue =
     (let suggestion = issue;
          suggestion = replace suggestion ''Missing'' ''Add'';
          suggestion = replace suggestion ''Too short'' ''Increase length of'';
          suggestion = replace suggestion ''Too long'' ''Reduce length of'';
          suggestion = replace suggestion ''No '' ''Add '';
          suggestion = replace suggestion ''Not '' ''Enable ''
      in suggestion)"

definition category_improvements :: "string \<Rightarrow> string list \<Rightarrow> string list" where
  "category_improvements category analysis =
     map (\<lambda>issue. ''['' @ category @ ''] '' @ rewrite issue)
       (filter (\<lambda>issue. any_in issue_keywords (lower issue)) analysis)"

definition generate_improvements ::
  "string list \<Rightarrow> string list \<Rightarrow> string list \<Rightarrow> string list \<Rightarrow> string list \<Rightarrow> string list
     \<Rightarrow> string list" where
  "generate_improvements meta_analysis content_analysis technical_analysis
       speed_analysis security_analysis link_analysis =
     concat (map (\<lambda>(category, analysis). category_improvements category analysis)
       [(''Meta Tags'', meta_analysis), (''Content'', content_analysis),
        (''Technical'', technical_analysis), (''Speed'', speed_analysis),
        (''Security'', security_analysis), (''Links'', link_analysis)])"

text \<open>Reference definitions for the suggestions.\<close>

definition triggered :: "string \<Rightarrow> bool" where
  "triggered f \<longleftrightarrow>
     (\<exists>k\<in>set [''missing'', ''too'', ''no'', ''not'', ''slow'', ''large'', ''multiple'', ''broken''].
        sublist k (lower f))"

definition substituted :: "string \<Rightarrow> string" where
  "substituted f =
     replace (replace (replace (replace (replace f ''Missing'' ''Add'')
       ''Too short'' ''Increase length of'') ''Too long'' ''Reduce length of'')
       ''No '' ''Add '') ''Not '' ''Enable ''"

definition category_suggestions :: "string \<Rightarrow> string list \<Rightarrow> string list" where
  "category_suggestions category fs =
     map (\<lambda>f. ''['' @ category @ ''] '' @ substituted f) (filter triggered fs)"

section \<open>Numbers and text\<close>

datatype error =
  ValueError | ZeroDivisionError | OverflowError | TypeError | IndexError | LookupFailure

text \<open>
  \<open>a / b\<close> on two \<open>int\<close>s: the quotient rounded to a double; \<open>ZeroDivisionError\<close> when
  \<open>b\<close> is 0, \<open>OverflowError\<close> when the rounded quotient is beyond the largest double.
\<close>

definition truediv :: "int \<Rightarrow> int \<Rightarrow> error + rat" where
  "truediv a b =
     (if b = 0 then Inl ZeroDivisionError
      else if 2 ^ 1024 \<le> \<bar>fl (of_int a / of_int b)\<bar> then Inl OverflowError
      else Inr (fl (of_int a / of_int b)))"

text \<open>\<open>str(n)\<close> for an \<open>int\<close>.\<close>

fun str_nat :: "nat \<Rightarrow> string" where
  "str_nat n = (if n < 10 then [char_of (48 + n)] else str_nat (n div 10) @ [char_of (48 + n mod 10)])"

declare str_nat.simps [simp del]


text \<open>
  \<open>f"{x:.df}"\<close> for a double \<open>x\<close>: the exact value of \<open>x\<close> rounded to \<open>d\<close> decimals,
  ties to even, the fraction padded with zeros.
\<close>

definition format_f :: "nat \<Rightarrow> rat \<Rightarrow> string" where
  "format_f d x =
     (let n = nat (rne (\<bar>x\<bar> * 10 ^ d));
          frac = str_nat (n mod 10 ^ d)
      in (if x < 0 then ''-'' else []) @ str_nat (n div 10 ^ d)
         @ (if d = 0 then [] else CHR ''.'' # replicate (d - length frac) CHR ''0'' @ frac))"

text \<open>Whitespace of \<open>str.split()\<close> among the code points below 256.\<close>

definition isspace :: "char \<Rightarrow> bool" where
  "isspace c = ((of_char c :: nat) \<in> {9, 10, 11, 12, 13, 28, 29, 30, 31, 32, 133, 160})"

text \<open>
  The whitespace that \<open>int()\<close> accepts around a number: unlike \<open>str.split()\<close> it does not
  accept the separators U+001C..U+001F.
\<close>

definition int_space :: "char \<Rightarrow> bool" where
  "int_space c = ((of_char c :: nat) \<in> {9, 10, 11, 12, 13, 32, 133, 160})"

definition int_strip :: "string \<Rightarrow> string" where
  "int_strip s = rev (dropWhile int_space (rev (dropWhile int_space s)))"

definition isdigit :: "char \<Rightarrow> bool" where
  "isdigit c = (48 \<le> (of_char c :: nat) \<and> (of_char c :: nat) \<le> 57)"

text \<open>Decimal digits with single underscores between them.\<close>

fun digit_groups :: "string \<Rightarrow> bool" where
  "digit_groups [] = False"
| "digit_groups [c] = isdigit c"
| "digit_groups (c # d # cs) =
     (isdigit c \<and> (if d = CHR ''_'' then digit_groups cs else digit_groups (d # cs)))"

definition digits_value :: "string \<Rightarrow> int" where
  "digits_value s =
     foldl (\<lambda>a c. 10 * a + int (of_char c - 48)) 0 (filter (\<lambda>c. c \<noteq> CHR ''_'') s)"

text \<open>
  \<open>int(s)\<close> for a string: optional whitespace, an optional sign, digit groups; a number of
  more than 4300 digits is refused.
\<close>

definition int_of_str :: "string \<Rightarrow> error + int" where
  "int_of_str s =
     (let t = int_strip s;
          (neg, ds) = (case t of [] \<Rightarrow> (False, [])
                       | c # cs \<Rightarrow> if c = CHR ''-'' then (True, cs)
                                  else if c = CHR ''+'' then (False, cs) else (False, t))
      in if digit_groups ds \<and> length (filter isdigit ds) \<le> 4300
         then Inr (if neg then - digits_value ds else digits_value ds)
         else Inl ValueError)"

section \<open>The HTTP response\<close>

text \<open>
  What the analyzer reads of a response: the status code, the headers (looked up without
  regard to case), the body text and the elapsed time, a \<open>timedelta\<close>, in microseconds.
\<close>

record response =
  status_code :: int
  headers :: "(string \<times> string) list"
  body :: string
  elapsed :: int

definition headers_get :: "response \<Rightarrow> string \<Rightarrow> string option" where
  "headers_get r k = map_of (map (\<lambda>(k, v). (lower k, v)) (headers r)) (lower k)"

text \<open>\<open>timedelta.total_seconds()\<close>: the microseconds divided by \<open>10**6\<close>.\<close>

definition total_seconds :: "int \<Rightarrow> rat" where
  "total_seconds us = fl (of_int us / 10 ^ 6)"

section \<open>The Speed extractor\<close>

definition analyze_speed :: "response \<Rightarrow> error + string list" where
  "analyze_speed r =
     (let response_time = total_seconds (elapsed r);
          analysis =
            (if 2 < response_time
             then [''Slow server response time: '' @ format_f 2 response_time
                     @ ''s (recommended: < 2s)'']
             else [''Good server response time: '' @ format_f 2 response_time @ ''s''])
      in case (case headers_get r ''content-length'' of
                 None \<Rightarrow> Inr 0 | Some v \<Rightarrow> int_of_str v) of
           Inl e \<Rightarrow> Inl e
         | Inr content_length \<Rightarrow>
             if 0 < content_length then
               (case truediv content_length (1024 * 1024) of
                  Inl e \<Rightarrow> Inl e
                | Inr size_mb \<Rightarrow>
                    if 3 < size_mb
                    then Inr (analysis @ [''Large page size: '' @ format_f 2 size_mb
                                            @ ''MB (recommended: < 3MB)''])
                    else Inr (analysis @ [''Good page size: '' @ format_f 2 size_mb @ ''MB'']))
             else Inr analysis)"

section \<open>The parsed document\<close>

text \<open>\<open>s.split()\<close>: the maximal blocks of non-whitespace characters, in order.\<close>

fun split_from :: "string \<Rightarrow> string \<Rightarrow> string list" where
  "split_from [] word = (if word = [] then [] else [rev word])"
| "split_from (c # cs) word =
     (if isspace c then (if word = [] then split_from cs [] else rev word # split_from cs [])
      else split_from cs (c # word))"

definition split :: "string \<Rightarrow> string list" where
  "split s = split_from s []"

text \<open>
  A tag of the parsed document: its name, its attribute dictionary and its \<open>.string\<close>
  (the text of a tag whose only child is a text node).  The document is the list of its
  tags in document order, which is the order \<open>find\<close> and \<open>find_all\<close> search in.
\<close>

record element =
  tag_name :: string
  attrs :: "string \<rightharpoonup> string"
  tag_string :: "string option"

type_synonym soup = "element list"

text \<open>
  An attribute filter \<open>{k: v}\<close>: the attribute is present and equal to \<open>v\<close>; for the
  multi-valued attribute \<open>rel\<close> it is enough that \<open>v\<close> is one of its values.
\<close>

definition attr_is :: "string \<Rightarrow> string \<Rightarrow> element \<Rightarrow> bool" where
  "attr_is k v e =
     (case attrs e k of None \<Rightarrow> False
      | Some x \<Rightarrow> x = v \<or> (k = ''rel'' \<and> v \<in> set (split x)))"

definition find_all :: "soup \<Rightarrow> string \<Rightarrow> (element \<Rightarrow> bool) \<Rightarrow> element list" where
  "find_all soup name p = filter (\<lambda>e. tag_name e = name \<and> p e) soup"

definition find_tag :: "soup \<Rightarrow> string \<Rightarrow> (element \<Rightarrow> bool) \<Rightarrow> element option" where
  "find_tag soup name p = List.find (\<lambda>e. tag_name e = name \<and> p e) soup"

text \<open>\<open>tag.get(k, default)\<close>.\<close>

definition get_or :: "element \<Rightarrow> string \<Rightarrow> string \<Rightarrow> string" where
  "get_or e k dflt = (case attrs e k of None \<Rightarrow> dflt | Some v \<Rightarrow> v)"

section \<open>The Meta extractor\<close>

text \<open>\<open>soup.title.string if soup.title else None\<close>.\<close>

definition title_of :: "soup \<Rightarrow> string option" where
  "title_of soup =
     (case find_tag soup ''title'' (\<lambda>e. True) of None \<Rightarrow> None | Some t \<Rightarrow> tag_string t)"

definition analyze_meta_tags :: "soup \<Rightarrow> string list" where
  "analyze_meta_tags soup =
     (let title = title_of soup;
          a1 = (case title of
                  Some t \<Rightarrow>
                    if t \<noteq> [] then
                      (let title_length = length t in
                       if title_length < 30 then
                         [''Title tag is too short ('' @ str_nat title_length
                            @ '' chars, recommended: 50-60)'']
                       else if 60 < title_length then
                         [''Title tag is too long ('' @ str_nat title_length
                            @ '' chars, recommended: 50-60)'']
                       else [''Title tag length is optimal ('' @ str_nat title_length
                               @ '' chars)''])
                    else [''Missing title tag'']
                | None \<Rightarrow> [''Missing title tag'']);
          meta_desc = find_tag soup ''meta'' (attr_is ''name'' ''description'');
          a2 = (case (case meta_desc of None \<Rightarrow> None | Some md \<Rightarrow> attrs md ''content'') of
                  Some d \<Rightarrow>
                    if d \<noteq> [] then
                      (let desc_length = length d in
                       if desc_length < 120 then
                         [''Meta description is too short ('' @ str_nat desc_length
                            @ '' chars, recommended: 120-155)'']
                       else if 155 < desc_length then
                         [''Meta description is too long ('' @ str_nat desc_length
                            @ '' chars, recommended: 120-155)'']
                       else [''Meta description length is optimal ('' @ str_nat desc_length
                               @ '' chars)''])
                    else [''Missing meta description'']
                | None \<Rightarrow> [''Missing meta description'']);
          robots = find_tag soup ''meta'' (attr_is ''name'' ''robots'');
          a3 = (case robots of
                  Some r \<Rightarrow> [''Robots meta tag found: '' @ get_or r ''content'' []]
                | None \<Rightarrow> [''No robots meta tag found'']);
          canonical = find_tag soup ''link'' (attr_is ''rel'' ''canonical'');
          a4 = (case canonical of
                  Some c \<Rightarrow> [''Canonical URL is set to: '' @ get_or c ''href'' []]
                | None \<Rightarrow> [''No canonical URL specified'']);
          viewport = find_tag soup ''meta'' (attr_is ''name'' ''viewport'');
          a5 = (if viewport \<noteq> None
                then [''Viewport meta tag is properly set for mobile devices'']
                else [''Missing viewport meta tag for mobile responsiveness'']);
          og_tags = find_all soup ''meta''
                      (\<lambda>e. case attrs e ''property'' of None \<Rightarrow> False
                            | Some v \<Rightarrow> startswith v ''og:'');
          a6 = (if og_tags \<noteq> []
                then [''Found '' @ str_nat (length og_tags)
                        @ '' Open Graph tags for social media sharing'']
                else [''No Open Graph tags found for social media optimization''])
      in a1 @ a2 @ a3 @ a4 @ a5 @ a6)"

text \<open>The \<open>content\<close> of the first \<open>meta\<close> tag named \<open>description\<close>, if there is one.\<close>

definition description_of :: "soup \<Rightarrow> string option" where
  "description_of soup =
     (case find_tag soup ''meta'' (attr_is ''name'' ''description'') of
        None \<Rightarrow> None | Some md \<Rightarrow> attrs md ''content'')"

section \<open>The Content extractor\<close>

text \<open>\<open>sep.join(xs)\<close> and \<open>s.endswith(suffix)\<close>.\<close>

fun join :: "string \<Rightarrow> string list \<Rightarrow> string" where
  "join sep [] = []"
| "join sep [x] = x"
| "join sep (x # y # ys) = x @ sep @ join sep (y # ys)"

definition endswith :: "string \<Rightarrow> string \<Rightarrow> bool" where
  "endswith s suf = startswith (rev s) (rev suf)"

text \<open>
  The heading block: \<open>headings\<close> maps \<open>h1\<close>..\<open>h6\<close>, in that order, to the number of such
  tags.
\<close>

definition count_tag :: "soup \<Rightarrow> string \<Rightarrow> nat" where
  "count_tag soup name = length (find_all soup name (\<lambda>e. True))"

definition headings :: "soup \<Rightarrow> (string \<times> nat) list" where
  "headings soup =
     map (\<lambda>i. (CHR ''h'' # str_nat i, count_tag soup (CHR ''h'' # str_nat i))) [1, 2, 3, 4, 5, 6]"

definition heading_findings :: "soup \<Rightarrow> string list" where
  "heading_findings soup =
     (let h1 = count_tag soup ''h1'' in
      (if h1 = 0 then [''Missing H1 heading (main title)'']
       else if 1 < h1 then
         [''Multiple H1 headings detected ('' @ str_nat h1 @ '' found, recommended: 1)'']
       else [])
      @ [''Heading structure: ''
           @ join '', '' (map (\<lambda>(k, v). k @ '': '' @ str_nat v)
                           (filter (\<lambda>(k, v). 0 < v) (headings soup)))])"

text \<open>The image block.\<close>

definition image_findings :: "soup \<Rightarrow> string list" where
  "image_findings soup =
     (let images = find_all soup ''img'' (\<lambda>e. True);
          total_images = length images;
          images_without_alt =
            length (filter (\<lambda>img. case attrs img ''alt'' of None \<Rightarrow> True | Some a \<Rightarrow> a = [])
                      images);
          large_images =
            length (filter (\<lambda>img. let src = get_or img ''src'' [] in
                                   endswith src ''.png'' \<or> endswith src ''.jpg''
                                   \<or> endswith src ''.jpeg'') images)
      in [''Total images: '' @ str_nat total_images]
         @ (if 0 < images_without_alt
            then [''Images without alt text: '' @ str_nat images_without_alt] else [])
         @ (if 0 < large_images
            then [''Consider optimizing '' @ str_nat large_images @ '' large image(s)'']
            else []))"

text \<open>
  \<open>word_freq[word] = word_freq.get(word, 0) + 1\<close> on a dictionary that keeps its keys
  in the order of their first insertion.
\<close>

fun bump :: "(string \<times> nat) list \<Rightarrow> string \<Rightarrow> (string \<times> nat) list" where
  "bump [] w = [(w, 1)]"
| "bump ((k, c) # kvs) w = (if k = w then (k, c + 1) # kvs else (k, c) # bump kvs w)"

definition word_freq :: "string list \<Rightarrow> (string \<times> nat) list" where
  "word_freq words =
     foldl (\<lambda>freq word. if 3 < length word then bump freq (lower word) else freq) [] words"

text \<open>
  \<open>sorted(word_freq.items(), key=lambda x: x[1], reverse=True)[:5]\<close>: a stable sort by
  descending count.
\<close>

definition top_keywords :: "string list \<Rightarrow> (string \<times> nat) list" where
  "top_keywords words = take 5 (sort_key (\<lambda>(w, c). - int c) (word_freq words))"

definition keyword_finding :: "string \<Rightarrow> rat \<Rightarrow> nat \<Rightarrow> string" where
  "keyword_finding word density count =
     ''- '' @ [CHR 0x27] @ word @ [CHR 0x27] @ '': '' @ format_f 1 density @ ''% (''
       @ str_nat count @ '' occurrences)''"

text \<open>The loop over the top keywords; the division raises when \<open>word_count\<close> is 0.\<close>

fun keyword_findings :: "nat \<Rightarrow> (string \<times> nat) list \<Rightarrow> error + string list" where
  "keyword_findings word_count [] = Inr []"
| "keyword_findings word_count ((word, count) # rest) =
     (case truediv (int count) (int word_count) of
        Inl e \<Rightarrow> Inl e
      | Inr q \<Rightarrow>
          (let density = fmul q 100 in
           case keyword_findings word_count rest of
             Inl e \<Rightarrow> Inl e
           | Inr fs \<Rightarrow> Inr (keyword_finding word density count # fs)))"

definition analyze_content :: "soup \<Rightarrow> string option \<Rightarrow> error + string list" where
  "analyze_content soup text_content =
     (let analysis = heading_findings soup @ image_findings soup in
      case text_content of
        None \<Rightarrow> Inr analysis
      | Some txt \<Rightarrow>
          if txt = [] then Inr analysis
          else
            (let words = split txt;
                 word_count = length words;
                 analysis = analysis @
                   [if word_count < 300
                    then ''Content is too short ('' @ str_nat word_count
                           @ '' words, recommended: minimum 300)''
                    else ''Good content length: '' @ str_nat word_count @ '' words'']
                   @ [''Top 5 keywords and their density:'']
             in case keyword_findings word_count (top_keywords words) of
                  Inl e \<Rightarrow> Inl e
                | Inr fs \<Rightarrow> Inr (analysis @ fs)))"

text \<open>
  Reference definitions for the keyword ranking: the distinct elements of a list in the
  order of their first occurrence, and the table that pairs each distinct lower-cased
  token longer than three characters with its number of occurrences.
\<close>

definition first_occurrences :: "'a list \<Rightarrow> 'a list" where
  "first_occurrences xs = rev (remdups (rev xs))"

definition frequency_table :: "string list \<Rightarrow> (string \<times> nat) list" where
  "frequency_table words =
     (let ws = map lower (filter (\<lambda>t. 3 < length t) words)
      in map (\<lambda>w. (w, count_list ws w)) (first_occurrences ws))"

text \<open>The table ordered by descending count, entries of equal count in table order.\<close>

definition ranking :: "string list \<Rightarrow> (string \<times> nat) list" where
  "ranking words = sort_key (\<lambda>p. - int (snd p)) (frequency_table words)"

section \<open>The Links extractor\<close>

text \<open>
  \<open>urlparse(u).netloc\<close> and \<open>urljoin(base, href)\<close> belong to the URL library; they are
  parameters of the extractor, and either may raise.  The loop below is the \<open>for\<close> loop
  over the anchors: it receives the \<open>href\<close> of each anchor and returns the internal and
  the external absolute URLs.
\<close>

fun classify_links ::
  "(string \<Rightarrow> error + string) \<Rightarrow> (string \<Rightarrow> string \<Rightarrow> error + string) \<Rightarrow> string \<Rightarrow> string
     \<Rightarrow> string option list \<Rightarrow> error + (string list \<times> string list)" where
  "classify_links netloc urljoin url base_domain [] = Inr ([], [])"
| "classify_links netloc urljoin url base_domain (href # rest) =
     (case href of
        None \<Rightarrow> classify_links netloc urljoin url base_domain rest
      | Some h \<Rightarrow>
          if h = [] \<or> startswith h ''#''
          then classify_links netloc urljoin url base_domain rest
          else
            (case urljoin url h of
               Inl e \<Rightarrow> Inl e
             | Inr absolute_url \<Rightarrow>
                 (case netloc absolute_url of
                    Inl e \<Rightarrow> Inl e
                  | Inr n \<Rightarrow>
                      (case classify_links netloc urljoin url base_domain rest of
                         Inl e \<Rightarrow> Inl e
                       | Inr (internal_links, external_links) \<Rightarrow>
                           if n = base_domain \<or> n = []
                           then Inr (absolute_url # internal_links, external_links)
                           else Inr (internal_links, absolute_url # external_links)))))"

definition analyze_links ::
  "(string \<Rightarrow> error + string) \<Rightarrow> (string \<Rightarrow> string \<Rightarrow> error + string) \<Rightarrow> string \<Rightarrow> soup
     \<Rightarrow> error + string list" where
  "analyze_links netloc urljoin url soup =
     (let links = find_all soup ''a'' (\<lambda>e. attrs e ''href'' \<noteq> None) in
      case netloc url of
        Inl e \<Rightarrow> Inl e
      | Inr base_domain \<Rightarrow>
          (case classify_links netloc urljoin url base_domain
                  (map (\<lambda>link. attrs link ''href'') links) of
             Inl e \<Rightarrow> Inl e
           | Inr (internal_links, external_links) \<Rightarrow>
               (let nofollow_links = length (find_all soup ''a'' (attr_is ''rel'' ''nofollow''))
                in Inr ([''Total links found: '' @ str_nat (length links),
                         ''Internal links: '' @ str_nat (length internal_links),
                         ''External links: '' @ str_nat (length external_links)]
                        @ (if 0 < nofollow_links
                           then [''Links with nofollow: '' @ str_nat nofollow_links]
                           else [])))))"

text \<open>
  Reference definitions: the \<open>href\<close> values of the anchors that have one, in document
  order, and those among them that are neither empty nor a fragment.
\<close>

definition hrefs :: "soup \<Rightarrow> string list" where
  "hrefs soup =
     concat (map (\<lambda>e. if tag_name e = ''a'' then (case attrs e ''href'' of None \<Rightarrow> [] | Some h \<Rightarrow> [h])
                       else []) soup)"

definition candidates :: "soup \<Rightarrow> string list" where
  "candidates soup = filter (\<lambda>h. h \<noteq> [] \<and> \<not> startswith h ''#'') (hrefs soup)"

section \<open>The Security extractor and the mobile probe\<close>











text \<open>
  The density of a keyword as it is printed, in tenths of a percent: the double
  \<open>(count / word_count) * 100\<close> rounded to one decimal, ties to even.
\<close>

definition density_tenths :: "nat \<Rightarrow> nat \<Rightarrow> nat" where
  "density_tenths c n = nat (rne (fmul (fl (of_nat c / of_nat n)) 100 * 10))"

section \<open>The URL library\<close>

text \<open>
  Modelled from the URL library (\<open>urllib.parse\<close>), which is not part of the repository:
  the network location and the host name of a URL, for URLs without blanks or control
  characters whose network location is ASCII and, where it is bracketed, holds a valid
  address.  The network location is what
  stands between \<open>//\<close> after the scheme and the next \<open>/\<close>, \<open>?\<close> or \<open>#\<close>; it keeps the
  user information, the port and the letter case, and unbalanced brackets in it raise
  \<open>ValueError\<close>.  The host name is the network location without user information and
  port, in lower case.
\<close>

definition scheme_char :: "char \<Rightarrow> bool" where
  "scheme_char c =
     (let n = (of_char c :: nat) in
      (48 \<le> n \<and> n \<le> 57) \<or> (65 \<le> n \<and> n \<le> 90) \<or> (97 \<le> n \<and> n \<le> 122)
      \<or> c = CHR ''+'' \<or> c = CHR ''-'' \<or> c = CHR ''.'')"

definition ascii_alpha :: "char \<Rightarrow> bool" where
  "ascii_alpha c =
     (let n = (of_char c :: nat) in (65 \<le> n \<and> n \<le> 90) \<or> (97 \<le> n \<and> n \<le> 122))"

definition after_scheme :: "string \<Rightarrow> string" where
  "after_scheme url =
     (let s = takeWhile (\<lambda>c. c \<noteq> CHR '':'') url in
      if length s < length url \<and> s \<noteq> [] \<and> list_all scheme_char s
         \<and> list_all ascii_alpha (take 1 s)
      then drop (length s + 1) url else url)"

definition url_netloc :: "string \<Rightarrow> error + string" where
  "url_netloc url =
     (let rest = after_scheme url;
          n = (if startswith rest ''//''
               then takeWhile (\<lambda>c. c \<noteq> CHR ''/'' \<and> c \<noteq> CHR ''?'' \<and> c \<noteq> CHR ''#'') (drop 2 rest)
               else [])
      in if (CHR ''['' \<in> set n \<and> CHR '']'' \<notin> set n) \<or> (CHR '']'' \<in> set n \<and> CHR ''['' \<notin> set n)
         then Inl ValueError else Inr n)"

definition url_hostname :: "string \<Rightarrow> error + string option" where
  "url_hostname url =
     (case url_netloc url of
        Inl e \<Rightarrow> Inl e
      | Inr n \<Rightarrow>
          (let hostinfo = rev (takeWhile (\<lambda>c. c \<noteq> CHR ''@'') (rev n));
               hostname =
                 (if CHR ''['' \<in> set hostinfo
                  then takeWhile (\<lambda>c. c \<noteq> CHR '']'')
                         (drop 1 (dropWhile (\<lambda>c. c \<noteq> CHR ''['') hostinfo))
                  else takeWhile (\<lambda>c. c \<noteq> CHR '':'') hostinfo)
           in Inr (if hostname = [] then None
                   else Some (lower (takeWhile (\<lambda>c. c \<noteq> CHR ''%'') hostname)
                              @ dropWhile (\<lambda>c. c \<noteq> CHR ''%'') hostname))))"

text \<open>
  \<open>urljoin(base, href)\<close> for a non-empty \<open>base\<close> and an \<open>href\<close> that is an absolute URL in
  the library's normal form, with a scheme and a network location of its own: both are
  parsed, which may raise, and the result is the \<open>href\<close>.
\<close>

definition urljoin_absolute :: "string \<Rightarrow> string \<Rightarrow> error + string" where
  "urljoin_absolute base href =
     (case url_netloc base of
        Inl e \<Rightarrow> Inl e
      | Inr _ \<Rightarrow> (case url_netloc href of Inl e \<Rightarrow> Inl e | Inr _ \<Rightarrow> Inr href))"

section \<open>Substring search\<close>

lemma startswith_prefix: "startswith s p \<longleftrightarrow> prefix p s"
  by (induction s p rule: startswith.induct) auto

lemma contains_sublist: "contains s k \<longleftrightarrow> sublist k s"
  by (induction s) (auto simp: startswith_prefix sublist_Cons_right)

lemma count_issues_matched:
  "count_issues analysis keywords = int (length (matched_findings keywords analysis))"
  by (simp add: count_issues_def matched_findings_def any_in_def list_ex_iff contains_sublist)

lemma clamp_sub_score:
  "clamp (100 - count_issues analysis keywords * d) = sub_score d keywords analysis"
  by (simp add: clamp_def sub_score_def count_issues_matched mult.commute)

lemma clamp_range: "0 \<le> clamp x \<and> clamp x \<le> 100"
  by (simp add: clamp_def)

section \<open>Sub-scores\<close>

text \<open>
  Claim C1.  For any six lists of findings, each sub-score returned by the scorer is
  100 minus the category's deduction times the number of findings whose lower-cased text
  contains one of the category's keywords, cut to the range from 0 to 100; the keywords
  and deductions are those of the table (meta 15, content 10, technical 20, speed 25,
  security 30, links 15).  Hence every sub-score lies between 0 and 100.
\<close>

theorem calculate_scores_sub_scores:
  "meta (calculate_scores ma ca ta sa sea la) = sub_score 15 [''missing'', ''too'', ''no''] ma
   \<and> content (calculate_scores ma ca ta sa sea la)
       = sub_score 10 [''missing'', ''too short'', ''multiple''] ca
   \<and> technical (calculate_scores ma ca ta sa sea la)
       = sub_score 20 [''not'', ''slow'', ''needs''] ta
   \<and> speed (calculate_scores ma ca ta sa sea la) = sub_score 25 [''slow'', ''large''] sa
   \<and> security (calculate_scores ma ca ta sa sea la)
       = sub_score 30 [''not'', ''risk'', ''could not''] sea
   \<and> links (calculate_scores ma ca ta sa sea la) = sub_score 15 [''broken'', ''invalid''] la
   \<and> 0 \<le> meta (calculate_scores ma ca ta sa sea la)
   \<and> meta (calculate_scores ma ca ta sa sea la) \<le> 100
   \<and> 0 \<le> content (calculate_scores ma ca ta sa sea la)
   \<and> content (calculate_scores ma ca ta sa sea la) \<le> 100
   \<and> 0 \<le> technical (calculate_scores ma ca ta sa sea la)
   \<and> technical (calculate_scores ma ca ta sa sea la) \<le> 100
   \<and> 0 \<le> speed (calculate_scores ma ca ta sa sea la)
   \<and> speed (calculate_scores ma ca ta sa sea la) \<le> 100
   \<and> 0 \<le> security (calculate_scores ma ca ta sa sea la)
   \<and> security (calculate_scores ma ca ta sa sea la) \<le> 100
   \<and> 0 \<le> links (calculate_scores ma ca ta sa sea la)
   \<and> links (calculate_scores ma ca ta sa sea la) \<le> 100"
  by (simp add: calculate_scores_def Let_def clamp_sub_score [symmetric] clamp_range)

theorem calculate_scores_sub_scores_witness:
  "meta (calculate_scores [''Missing title tag'', ''No robots meta tag found''] [] [] [] [] []) = 70
   \<and> content (calculate_scores [] (replicate 12 ''Missing H1 heading (main title)'') [] [] [] []) = 0"
proof -
  have a: "sub_score 15 [''missing'', ''too'', ''no'']
             [''Missing title tag'', ''No robots meta tag found''] = 70"
    unfolding clamp_sub_score [symmetric] by code_simp
  have b: "sub_score 10 [''missing'', ''too short'', ''multiple'']
             (replicate 12 ''Missing H1 heading (main title)'') = 0"
    unfolding clamp_sub_score [symmetric] by code_simp
  show ?thesis
    using calculate_scores_sub_scores
            [of "[''Missing title tag'', ''No robots meta tag found'']" "[]" "[]" "[]" "[]" "[]"]
          calculate_scores_sub_scores
            [of "[]" "replicate 12 ''Missing H1 heading (main title)''" "[]" "[]" "[]" "[]"]
    by (simp only: a b)
qed

section \<open>Exact double arithmetic on the reachable sub-scores\<close>

lemma rne_of_int: "rne (of_int m) = m"
  by (simp add: rne_def Let_def)

lemma fl_exact:
  assumes "0 < x" "x / (2 powi (ilog2 x - 52)) = of_int m"
  shows "fl x = x"
proof -
  have "fl x = of_int (rne (x / (2 powi (ilog2 x - 52)))) * (2 powi (ilog2 x - 52))"
    using assms(1) by (simp add: fl_def Let_def)
  also have "\<dots> = x / (2 powi (ilog2 x - 52)) * (2 powi (ilog2 x - 52))"
    by (simp add: assms(2) rne_of_int)
  also have "\<dots> = x" by simp
  finally show ?thesis .
qed

lemma ilog2_le_bitlen:
  assumes "0 < k" and x: "x = of_int k / 2 ^ j"
  shows "ilog2 x \<le> bitlen k"
proof -
  obtain p q where pq: "quotient_of x = (p, q)"
    by (cases "quotient_of x")
  have q: "0 < q" using pq quotient_of_denom_pos by blast
  have cop: "coprime p q" using pq quotient_of_coprime by blast
  have eq: "x = (of_int p / of_int q :: rat)"
    using pq quotient_of_div by blast
  have "of_int k * of_int q = (of_int p * of_int (2 ^ j) :: rat)"
    using eq q x by (simp add: field_simps)
  then have e2: "k * q = p * 2 ^ j"
    by (metis of_int_eq_iff of_int_mult)
  have "p dvd k * q" using e2 by simp
  then have "p dvd k" using cop by (simp add: coprime_dvd_mult_left_iff)
  then have "p \<le> k" using assms by (simp add: zdvd_imp_le)
  then have "bitlen p \<le> bitlen k"
    by (simp add: bitlen_def floorlog_mono)
  moreover have "1 \<le> bitlen q"
    using q bitlen_eq_zero_iff[of q] bitlen_nonneg[of q] by linarith
  ultimately show ?thesis
    unfolding ilog2_def pq by (simp add: Let_def)
qed

text \<open>Every non-negative multiple of a quarter below \<open>2^48\<close> is a double.\<close>

lemma fl_quarter:
  assumes k: "0 \<le> k" "k < 2 ^ 50"
  shows "fl (of_int k / 4) = of_int k / 4"
proof (cases "k = 0")
  case True
  then show ?thesis by (simp add: fl_def)
next
  case False
  then have kp: "0 < k" using k by simp
  define x :: rat where "x = of_int k / 4"
  have xp: "0 < x" using kp by (simp add: x_def)
  have "ilog2 x \<le> bitlen k" using ilog2_le_bitlen[OF kp, of x 2] by (simp add: x_def)
  moreover have "bitlen k \<le> 50" using k kp
    by (simp add: bitlen_le_iff_power)
  ultimately have e: "ilog2 x \<le> 50" by simp
  define n where "n = nat (50 - ilog2 x)"
  have "2 powi (ilog2 x - 52) = (2 powi (- int n) / 4 :: rat)"
    using e by (simp add: n_def power_int_diff)
  then have "x / (2 powi (ilog2 x - 52)) = of_int (k * 2 ^ n)"
    by (simp add: x_def power_int_minus field_simps)
  from fl_exact[OF xp this] show ?thesis by (simp add: x_def)
qed

lemma fadd_quarter:
  assumes "0 \<le> a" "0 \<le> b" "a + b \<le> 400"
  shows "fadd (of_int a / 4) (of_int b / 4) = of_int (a + b) / 4"
proof -
  have "fadd (of_int a / 4) (of_int b / 4) = fl (of_int (a + b) / 4)"
    by (simp add: fadd_def add_divide_distrib)
  also have "\<dots> = of_int (a + b) / 4"
    using assms by (intro fl_quarter) auto
  finally show ?thesis .
qed

lemma weighted_sum_quarters:
  assumes "fmul (of_int s1) w1 = of_int k1 / 4" "fmul (of_int s2) w2 = of_int k2 / 4"
    "fmul (of_int s3) w3 = of_int k3 / 4" "fmul (of_int s4) w4 = of_int k4 / 4"
    "fmul (of_int s5) w5 = of_int k5 / 4" "fmul (of_int s6) w6 = of_int k6 / 4"
    and "0 \<le> k1" "0 \<le> k2" "0 \<le> k3" "0 \<le> k4" "0 \<le> k5" "0 \<le> k6"
    and "k1 + k2 + k3 + k4 + k5 + k6 \<le> 400"
  shows "weighted_sum [(s1, w1), (s2, w2), (s3, w3), (s4, w4), (s5, w5), (s6, w6)]
           = of_int (k1 + k2 + k3 + k4 + k5 + k6) / 4"
proof -
  have "weighted_sum [(s1, w1), (s2, w2), (s3, w3), (s4, w4), (s5, w5), (s6, w6)]
      = fadd (fadd (fadd (fadd (fadd (fadd (of_int 0 / 4) (of_int k1 / 4)) (of_int k2 / 4))
          (of_int k3 / 4)) (of_int k4 / 4)) (of_int k5 / 4)) (of_int k6 / 4)"
    by (simp only: weighted_sum_def foldl.simps prod.case assms(1-6)) simp
  also have "\<dots> = of_int (k1 + k2 + k3 + k4 + k5 + k6) / 4"
    using assms(7-13) by (simp only: fadd_quarter) (simp add: fadd_quarter)
  finally show ?thesis .
qed

text \<open>The values a sub-score can take, by deduction.\<close>

lemma clamp_vals_15:
  assumes "0 \<le> c"
  shows "clamp (100 - c * 15) \<in> {100, 85, 70, 55, 40, 25, 10, 0}"
proof -
  have "7 \<le> c \<or> c = 0 \<or> c = 1 \<or> c = 2 \<or> c = 3 \<or> c = 4 \<or> c = 5 \<or> c = 6"
    using assms by arith
  then show ?thesis by (auto simp: clamp_def)
qed

lemma clamp_vals_10:
  assumes "0 \<le> c"
  shows "clamp (100 - c * 10) \<in> {100, 90, 80, 70, 60, 50, 40, 30, 20, 10, 0}"
proof -
  have "10 \<le> c \<or> c = 0 \<or> c = 1 \<or> c = 2 \<or> c = 3 \<or> c = 4 \<or> c = 5 \<or> c = 6
          \<or> c = 7 \<or> c = 8 \<or> c = 9"
    using assms by arith
  then show ?thesis by (auto simp: clamp_def)
qed

lemma clamp_vals_20:
  assumes "0 \<le> c"
  shows "clamp (100 - c * 20) \<in> {100, 80, 60, 40, 20, 0}"
proof -
  have "5 \<le> c \<or> c = 0 \<or> c = 1 \<or> c = 2 \<or> c = 3 \<or> c = 4"
    using assms by arith
  then show ?thesis by (auto simp: clamp_def)
qed

lemma clamp_vals_25:
  assumes "0 \<le> c"
  shows "clamp (100 - c * 25) \<in> {100, 75, 50, 25, 0}"
proof -
  have "4 \<le> c \<or> c = 0 \<or> c = 1 \<or> c = 2 \<or> c = 3"
    using assms by arith
  then show ?thesis by (auto simp: clamp_def)
qed

lemma clamp_vals_30:
  assumes "0 \<le> c"
  shows "clamp (100 - c * 30) \<in> {100, 70, 40, 10, 0}"
proof -
  have "4 \<le> c \<or> c = 0 \<or> c = 1 \<or> c = 2 \<or> c = 3"
    using assms by arith
  then show ?thesis by (auto simp: clamp_def)
qed

text \<open>
  Each product of a reachable sub-score with its weight is computed without rounding
  error, although the weights 0.2, 0.15 and 0.1 themselves are not exact.
\<close>

lemma prod_meta:
  "s \<in> {100, 85, 70, 55, 40, 25, 10, 0} \<Longrightarrow> fmul (of_int s) w_meta = of_int (s div 5 * 4) / 4"
  by (elim insertE emptyE; hypsubst; code_simp)

lemma prod_content:
  "s \<in> {100, 90, 80, 70, 60, 50, 40, 30, 20, 10, 0} \<Longrightarrow> fmul (of_int s) w_content = of_int s / 4"
  by (elim insertE emptyE; hypsubst; code_simp)

lemma prod_technical:
  "s \<in> {100, 80, 60, 40, 20, 0} \<Longrightarrow> fmul (of_int s) w_technical = of_int (s div 5 * 3) / 4"
  by (elim insertE emptyE; hypsubst; code_simp)

lemma prod_speed:
  "s \<in> {100, 75, 50, 25, 0} \<Longrightarrow> fmul (of_int s) w_speed = of_int (s div 5 * 3) / 4"
  by (elim insertE emptyE; hypsubst; code_simp)

lemma prod_security:
  "s \<in> {100, 70, 40, 10, 0} \<Longrightarrow> fmul (of_int s) w_security = of_int (s div 5 * 3) / 4"
  by (elim insertE emptyE; hypsubst; code_simp)

lemma prod_links:
  "s \<in> {100, 85, 70, 55, 40, 25, 10, 0} \<Longrightarrow> fmul (of_int s) w_links = of_int (s div 5 * 2) / 4"
  by (elim insertE emptyE; hypsubst; code_simp)

lemma count_issues_nonneg: "0 \<le> count_issues analysis keywords"
  by (simp add: count_issues_def)

section \<open>The overall score\<close>

lemma quarters_5:
  assumes "5 dvd s" "0 \<le> s" "s \<le> 100" "0 \<le> j"
  shows "(of_int (s div 5 * j) / 4 :: rat) = of_int s * (of_int j / 20)"
    and "0 \<le> s div 5 * j" and "s div 5 * j \<le> 20 * j"
proof -
  from assms(1) obtain m where m: "s = 5 * m" by (elim dvdE)
  show "(of_int (s div 5 * j) / 4 :: rat) = of_int s * (of_int j / 20)"
    by (simp add: m)
  have "0 \<le> m" "m \<le> 20" using assms(2,3) m by auto
  then show "0 \<le> s div 5 * j" "s div 5 * j \<le> 20 * j"
    using assms(4) by (simp_all add: m mult_right_mono)
qed

text \<open>
  Claim C2.  The six sub-scores returned by the scorer are combined with the weights
  0.20, 0.25, 0.15, 0.15, 0.15 and 0.10, which sum to one.  In double arithmetic every
  product and every partial sum of the combination is exact, so the overall score equals
  the weighted sum as a rational number; the final cut to [0,100] returns the sum
  unchanged, also when a sub-score is 0 or 100; and no sub-score is left out.
\<close>

theorem calculate_scores_overall:
  "overall (calculate_scores ma ca ta sa sea la)
     = weighted_sum
         [(meta (calculate_scores ma ca ta sa sea la), w_meta),
          (content (calculate_scores ma ca ta sa sea la), w_content),
          (technical (calculate_scores ma ca ta sa sea la), w_technical),
          (speed (calculate_scores ma ca ta sa sea la), w_speed),
          (security (calculate_scores ma ca ta sa sea la), w_security),
          (links (calculate_scores ma ca ta sa sea la), w_links)]
   \<and> overall (calculate_scores ma ca ta sa sea la)
     = of_int (meta (calculate_scores ma ca ta sa sea la)) * (20 / 100)
       + of_int (content (calculate_scores ma ca ta sa sea la)) * (25 / 100)
       + of_int (technical (calculate_scores ma ca ta sa sea la)) * (15 / 100)
       + of_int (speed (calculate_scores ma ca ta sa sea la)) * (15 / 100)
       + of_int (security (calculate_scores ma ca ta sa sea la)) * (15 / 100)
       + of_int (links (calculate_scores ma ca ta sa sea la)) * (10 / 100)
   \<and> 0 \<le> overall (calculate_scores ma ca ta sa sea la)
   \<and> overall (calculate_scores ma ca ta sa sea la) \<le> 100
   \<and> (20 / 100 + 25 / 100 + 15 / 100 + 15 / 100 + 15 / 100 + 10 / 100 = (1 :: rat))"
proof -
  define m where "m = clamp (100 - count_issues ma [''missing'', ''too'', ''no''] * 15)"
  define c where "c = clamp (100 - count_issues ca [''missing'', ''too short'', ''multiple''] * 10)"
  define t where "t = clamp (100 - count_issues ta [''not'', ''slow'', ''needs''] * 20)"
  define sp where "sp = clamp (100 - count_issues sa [''slow'', ''large''] * 25)"
  define se where "se = clamp (100 - count_issues sea [''not'', ''risk'', ''could not''] * 30)"
  define l where "l = clamp (100 - count_issues la [''broken'', ''invalid''] * 15)"
  define ws where "ws = weighted_sum [(m, w_meta), (c, w_content), (t, w_technical),
                          (sp, w_speed), (se, w_security), (l, w_links)]"
  have r: "calculate_scores ma ca ta sa sea la
     = \<lparr>meta = m, content = c, technical = t, speed = sp, security = se, links = l,
          overall = fclamp ws\<rparr>"
    by (simp add: calculate_scores_def Let_def m_def c_def t_def sp_def se_def l_def ws_def)
  have mS: "m \<in> {100, 85, 70, 55, 40, 25, 10, 0}"
    unfolding m_def by (rule clamp_vals_15 [OF count_issues_nonneg])
  have cS: "c \<in> {100, 90, 80, 70, 60, 50, 40, 30, 20, 10, 0}"
    unfolding c_def by (rule clamp_vals_10 [OF count_issues_nonneg])
  have tS: "t \<in> {100, 80, 60, 40, 20, 0}"
    unfolding t_def by (rule clamp_vals_20 [OF count_issues_nonneg])
  have spS: "sp \<in> {100, 75, 50, 25, 0}"
    unfolding sp_def by (rule clamp_vals_25 [OF count_issues_nonneg])
  have seS: "se \<in> {100, 70, 40, 10, 0}"
    unfolding se_def by (rule clamp_vals_30 [OF count_issues_nonneg])
  have lS: "l \<in> {100, 85, 70, 55, 40, 25, 10, 0}"
    unfolding l_def by (rule clamp_vals_15 [OF count_issues_nonneg])
  have m5: "5 dvd m" "0 \<le> m" "m \<le> 100" using mS by auto
  have c5: "0 \<le> c" "c \<le> 100" using cS by auto
  have t5: "5 dvd t" "0 \<le> t" "t \<le> 100" using tS by auto
  have sp5: "5 dvd sp" "0 \<le> sp" "sp \<le> 100" using spS by auto
  have se5: "5 dvd se" "0 \<le> se" "se \<le> 100" using seS by auto
  have l5: "5 dvd l" "0 \<le> l" "l \<le> 100" using lS by auto
  have p1: "fmul (of_int m) w_meta = of_int (m div 5 * 4) / 4" by (rule prod_meta [OF mS])
  have p2: "fmul (of_int c) w_content = of_int c / 4" by (rule prod_content [OF cS])
  have p3: "fmul (of_int t) w_technical = of_int (t div 5 * 3) / 4"
    by (rule prod_technical [OF tS])
  have p4: "fmul (of_int sp) w_speed = of_int (sp div 5 * 3) / 4" by (rule prod_speed [OF spS])
  have p5: "fmul (of_int se) w_security = of_int (se div 5 * 3) / 4"
    by (rule prod_security [OF seS])
  have p6: "fmul (of_int l) w_links = of_int (l div 5 * 2) / 4" by (rule prod_links [OF lS])
  have b1: "0 \<le> m div 5 * 4" "m div 5 * 4 \<le> 80"
    using quarters_5(2,3) [OF m5, of 4] by simp_all
  have b3: "0 \<le> t div 5 * 3" "t div 5 * 3 \<le> 60"
    using quarters_5(2,3) [OF t5, of 3] by simp_all
  have b4: "0 \<le> sp div 5 * 3" "sp div 5 * 3 \<le> 60"
    using quarters_5(2,3) [OF sp5, of 3] by simp_all
  have b5: "0 \<le> se div 5 * 3" "se div 5 * 3 \<le> 60"
    using quarters_5(2,3) [OF se5, of 3] by simp_all
  have b6: "0 \<le> l div 5 * 2" "l div 5 * 2 \<le> 40"
    using quarters_5(2,3) [OF l5, of 2] by simp_all
  have total: "m div 5 * 4 + c + t div 5 * 3 + sp div 5 * 3 + se div 5 * 3 + l div 5 * 2 \<le> 400"
    using b1(2) c5(2) b3(2) b4(2) b5(2) b6(2) by linarith
  have "ws = of_int (m div 5 * 4 + c + t div 5 * 3 + sp div 5 * 3 + se div 5 * 3 + l div 5 * 2) / 4"
    unfolding ws_def
    by (rule weighted_sum_quarters [OF p1 p2 p3 p4 p5 p6 b1(1) c5(1) b3(1) b4(1) b5(1) b6(1) total])
  also have "\<dots> = of_int (m div 5 * 4) / 4 + of_int c / 4 + of_int (t div 5 * 3) / 4
      + of_int (sp div 5 * 3) / 4 + of_int (se div 5 * 3) / 4 + of_int (l div 5 * 2) / 4"
    by (simp only: of_int_add add_divide_distrib)
  also have "\<dots> = of_int m * (20 / 100) + of_int c * (25 / 100) + of_int t * (15 / 100)
      + of_int sp * (15 / 100) + of_int se * (15 / 100) + of_int l * (10 / 100)"
  proof -
    have e1: "(of_int (m div 5 * 4) / 4 :: rat) = of_int m * (20 / 100)"
      using quarters_5(1) [OF m5, of 4] by simp
    have e2: "(of_int c / 4 :: rat) = of_int c * (25 / 100)" by simp
    have e3: "(of_int (t div 5 * 3) / 4 :: rat) = of_int t * (15 / 100)"
      using quarters_5(1) [OF t5, of 3] by simp
    have e4: "(of_int (sp div 5 * 3) / 4 :: rat) = of_int sp * (15 / 100)"
      using quarters_5(1) [OF sp5, of 3] by simp
    have e5: "(of_int (se div 5 * 3) / 4 :: rat) = of_int se * (15 / 100)"
      using quarters_5(1) [OF se5, of 3] by simp
    have e6: "(of_int (l div 5 * 2) / 4 :: rat) = of_int l * (10 / 100)"
      using quarters_5(1) [OF l5, of 2] by simp
    show ?thesis by (simp only: e1 e2 e3 e4 e5 e6)
  qed
  finally have ws: "ws = of_int m * (20 / 100) + of_int c * (25 / 100) + of_int t * (15 / 100)
      + of_int sp * (15 / 100) + of_int se * (15 / 100) + of_int l * (10 / 100)" .
  have lo: "0 \<le> ws" unfolding ws using m5 c5 t5 sp5 se5 l5 by simp
  have "ws \<le> 100 * (20 / 100) + 100 * (25 / 100) + 100 * (15 / 100)
      + 100 * (15 / 100) + 100 * (15 / 100) + 100 * (10 / 100)"
    unfolding ws using m5 c5 t5 sp5 se5 l5
    by (intro add_mono mult_right_mono) simp_all
  then have hi: "ws \<le> 100" by simp
  have fc: "fclamp ws = ws" using lo hi by (simp add: fclamp_def)
  have sel: "meta (calculate_scores ma ca ta sa sea la) = m"
    "content (calculate_scores ma ca ta sa sea la) = c"
    "technical (calculate_scores ma ca ta sa sea la) = t"
    "speed (calculate_scores ma ca ta sa sea la) = sp"
    "security (calculate_scores ma ca ta sa sea la) = se"
    "links (calculate_scores ma ca ta sa sea la) = l"
    "overall (calculate_scores ma ca ta sa sea la) = ws"
    by (simp_all add: r fc)
  show ?thesis
    unfolding sel by (intro conjI ws_def ws lo hi) simp
qed

section \<open>Suggestions\<close>

lemma any_in_issue_keywords: "any_in issue_keywords s \<longleftrightarrow> (\<exists>k\<in>set issue_keywords. sublist k s)"
  by (simp add: any_in_def list_ex_iff contains_sublist)

lemma triggered_any_in: "triggered f \<longleftrightarrow> any_in issue_keywords (lower f)"
  unfolding any_in_issue_keywords by (simp add: triggered_def issue_keywords_def)

lemma category_improvements_suggestions:
  "category_improvements category analysis = category_suggestions category analysis"
  by (simp add: category_improvements_def category_suggestions_def rewrite_def substituted_def
        triggered_any_in [abs_def])

text \<open>A pattern that does not occur is not replaced: the substitutions are case-sensitive.\<close>

lemma replace_absent:
  "old \<noteq> [] \<Longrightarrow> \<not> sublist old s \<Longrightarrow> replace s old new = s"
proof (induction s)
  case Nil
  then show ?case by (subst replace.simps) simp
next
  case (Cons c cs)
  from Cons.prems(2) have 1: "\<not> prefix old (c # cs)" and 2: "\<not> sublist old cs"
    by (auto simp: sublist_Cons_right)
  from 1 have "\<not> startswith (c # cs) old" by (simp add: startswith_prefix)
  with Cons.IH [OF Cons.prems(1) 2] Cons.prems(1) show ?case
    by (subst replace.simps) simp
qed

text \<open>
  Claim C3, as the code has it.  The suggestions are, category by category and in the
  order of the findings, those findings whose lower-cased text contains one of the trigger
  keywords, rewritten by the five literal, case-sensitive substitutions in the stated
  order and prefixed with the category in brackets.  \<open>Missing title tag\<close> gives
  \<open>[Meta Tags] Add title tag\<close>; \<open>Title tag is too long (70 chars...)\<close> is a trigger
  but contains none of the capitalised patterns, so it is only prefixed; a finding with
  no trigger keyword gives no suggestion.
\<close>

theorem generate_improvements_rewrite:
  "generate_improvements ma ca ta sa sea la
     = category_suggestions ''Meta Tags'' ma @ category_suggestions ''Content'' ca
       @ category_suggestions ''Technical'' ta @ category_suggestions ''Speed'' sa
       @ category_suggestions ''Security'' sea @ category_suggestions ''Links'' la
   \<and> generate_improvements [''Missing title tag''] [] [] [] [] []
       = [''[Meta Tags] Add title tag'']
   \<and> generate_improvements [''Title tag is too long (70 chars...)''] [] [] [] [] []
       = [''[Meta Tags] Title tag is too long (70 chars...)'']
   \<and> (\<not> triggered f \<longrightarrow> generate_improvements [f] [] [] [] [] [] = [])"
proof (intro conjI impI)
  show "generate_improvements ma ca ta sa sea la
     = category_suggestions ''Meta Tags'' ma @ category_suggestions ''Content'' ca
       @ category_suggestions ''Technical'' ta @ category_suggestions ''Speed'' sa
       @ category_suggestions ''Security'' sea @ category_suggestions ''Links'' la"
    by (simp add: generate_improvements_def category_improvements_suggestions)
  show "generate_improvements [''Missing title tag''] [] [] [] [] []
       = [''[Meta Tags] Add title tag'']"
    by code_simp
  show "generate_improvements [''Title tag is too long (70 chars...)''] [] [] [] [] []
       = [''[Meta Tags] Title tag is too long (70 chars...)'']"
    by code_simp
  show "generate_improvements [f] [] [] [] [] [] = []" if "\<not> triggered f"
    using that
    by (simp add: generate_improvements_def category_improvements_suggestions
          category_suggestions_def)
qed

theorem generate_improvements_rewrite_witness:
  "\<not> triggered ''Good page size: 0.50MB''
   \<and> generate_improvements [''Good page size: 0.50MB''] [] [] [] [] [] = []"
proof -
  have "\<not> any_in issue_keywords (lower ''Good page size: 0.50MB'')"
    by code_simp
  then have n: "\<not> triggered ''Good page size: 0.50MB''"
    unfolding triggered_any_in .
  with generate_improvements_rewrite [of "[]" "[]" "[]" "[]" "[]" "[]" "''Good page size: 0.50MB''"]
  show ?thesis by blast
qed

theorem generate_improvements_too_long_counterexample:
  "generate_improvements [''Title tag is too long (70 chars...)''] [] [] [] [] []
     \<noteq> [''[Meta Tags] Reduce length of title tag is too long (70 chars...)'']"
  by code_simp

section \<open>Page size without a Content-Length header\<close>

text \<open>
  Claim C4, as the code has it.  When the response has no Content-Length header the
  size is taken to be 0, and the guard \<open>content_length > 0\<close> then skips the page-size
  finding altogether: the Speed extractor returns the response-time finding alone, and
  the result does not depend on the body, whose length is never measured.
\<close>

theorem analyze_speed_no_content_length:
  "headers_get r ''content-length'' = None \<Longrightarrow>
     analyze_speed r =
       Inr [if 2 < total_seconds (elapsed r)
            then ''Slow server response time: '' @ format_f 2 (total_seconds (elapsed r))
                   @ ''s (recommended: < 2s)''
            else ''Good server response time: '' @ format_f 2 (total_seconds (elapsed r)) @ ''s'']
     \<and> analyze_speed (r\<lparr>body := b\<rparr>) = analyze_speed r"
  by (simp add: analyze_speed_def headers_get_def Let_def)

theorem analyze_speed_no_content_length_witness:
  "headers_get \<lparr>status_code = 200, headers = [(''Server'', ''nginx'')], body = ''<html></html>'',
       elapsed = 500000\<rparr> ''content-length'' = None
   \<and> analyze_speed \<lparr>status_code = 200, headers = [(''Server'', ''nginx'')],
         body = ''<html></html>'', elapsed = 500000\<rparr>
       = Inr [''Good server response time: 0.50s'']"
proof -
  have h: "headers_get \<lparr>status_code = 200, headers = [(''Server'', ''nginx'')],
       body = ''<html></html>'', elapsed = 500000\<rparr> ''content-length'' = None"
    by code_simp
  have t: "total_seconds 500000 = 1 / 2" by code_simp
  have f: "format_f 2 (1 / 2) = ''0.50''" by code_simp
  show ?thesis
    using analyze_speed_no_content_length [OF h, of "''<html></html>''"] h
    by (simp add: t f)
qed

theorem analyze_speed_no_size_finding_counterexample:
  "analyze_speed \<lparr>status_code = 200, headers = [], body = ''<html></html>'', elapsed = 500000\<rparr>
     = Inr [''Good server response time: 0.50s'']
   \<and> analyze_speed \<lparr>status_code = 200, headers = [], body = ''<html></html>'', elapsed = 500000\<rparr>
     \<noteq> Inr [''Good server response time: 0.50s'', ''Good page size: 0.00MB'']"
  by code_simp

section \<open>Length classes of title and description\<close>

text \<open>
  Claim C5.  For a document whose title is a non-empty string of length L, the first
  finding of the Meta extractor is the "too short" finding exactly when L < 30, the
  "too long" finding exactly when L > 60, and the "optimal" finding exactly when
  30 \<le> L \<le> 60, so that 30 and 60 themselves are optimal.  For a non-empty meta
  description the second finding is classified the same way with the bounds 120 and 155.
\<close>

theorem analyze_meta_tags_length_classes:
  "(title_of soup = Some t \<and> t \<noteq> [] \<longrightarrow>
      (analyze_meta_tags soup ! 0
         = ''Title tag is too short ('' @ str_nat (length t) @ '' chars, recommended: 50-60)''
       \<longleftrightarrow> length t < 30)
    \<and> (analyze_meta_tags soup ! 0
         = ''Title tag is too long ('' @ str_nat (length t) @ '' chars, recommended: 50-60)''
       \<longleftrightarrow> 60 < length t)
    \<and> (analyze_meta_tags soup ! 0
         = ''Title tag length is optimal ('' @ str_nat (length t) @ '' chars)''
       \<longleftrightarrow> 30 \<le> length t \<and> length t \<le> 60))
   \<and> (description_of soup = Some d \<and> d \<noteq> [] \<longrightarrow>
      (analyze_meta_tags soup ! 1
         = ''Meta description is too short ('' @ str_nat (length d)
             @ '' chars, recommended: 120-155)''
       \<longleftrightarrow> length d < 120)
    \<and> (analyze_meta_tags soup ! 1
         = ''Meta description is too long ('' @ str_nat (length d)
             @ '' chars, recommended: 120-155)''
       \<longleftrightarrow> 155 < length d)
    \<and> (analyze_meta_tags soup ! 1
         = ''Meta description length is optimal ('' @ str_nat (length d) @ '' chars)''
       \<longleftrightarrow> 120 \<le> length d \<and> length d \<le> 155))"
proof (intro conjI impI; elim conjE)
  assume t: "title_of soup = Some t" "t \<noteq> []"
  have hd: "analyze_meta_tags soup ! 0 =
     (if length t < 30 then
        ''Title tag is too short ('' @ str_nat (length t) @ '' chars, recommended: 50-60)''
      else if 60 < length t then
        ''Title tag is too long ('' @ str_nat (length t) @ '' chars, recommended: 50-60)''
      else ''Title tag length is optimal ('' @ str_nat (length t) @ '' chars)'')"
    using t by (simp add: analyze_meta_tags_def Let_def)
  show "analyze_meta_tags soup ! 0
         = ''Title tag is too short ('' @ str_nat (length t) @ '' chars, recommended: 50-60)''
       \<longleftrightarrow> length t < 30"
    unfolding hd by simp
  show "analyze_meta_tags soup ! 0
         = ''Title tag is too long ('' @ str_nat (length t) @ '' chars, recommended: 50-60)''
       \<longleftrightarrow> 60 < length t"
    unfolding hd by simp
  show "analyze_meta_tags soup ! 0
         = ''Title tag length is optimal ('' @ str_nat (length t) @ '' chars)''
       \<longleftrightarrow> 30 \<le> length t \<and> length t \<le> 60"
    unfolding hd by auto
next
  assume d: "description_of soup = Some d" "d \<noteq> []"
  have snd: "analyze_meta_tags soup ! 1 =
     (if length d < 120 then
        ''Meta description is too short ('' @ str_nat (length d)
          @ '' chars, recommended: 120-155)''
      else if 155 < length d then
        ''Meta description is too long ('' @ str_nat (length d)
          @ '' chars, recommended: 120-155)''
      else ''Meta description length is optimal ('' @ str_nat (length d) @ '' chars)'')"
    using d
    by (simp add: analyze_meta_tags_def description_of_def Let_def nth_append
          split: option.splits)
  show "analyze_meta_tags soup ! 1
         = ''Meta description is too short ('' @ str_nat (length d)
             @ '' chars, recommended: 120-155)''
       \<longleftrightarrow> length d < 120"
    unfolding snd by simp
  show "analyze_meta_tags soup ! 1
         = ''Meta description is too long ('' @ str_nat (length d)
             @ '' chars, recommended: 120-155)''
       \<longleftrightarrow> 155 < length d"
    unfolding snd by simp
  show "analyze_meta_tags soup ! 1
         = ''Meta description length is optimal ('' @ str_nat (length d) @ '' chars)''
       \<longleftrightarrow> 120 \<le> length d \<and> length d \<le> 155"
    unfolding snd by auto
qed

theorem analyze_meta_tags_length_classes_witness:
  "title_of
     [\<lparr>tag_name = ''title'', attrs = Map.empty, tag_string = Some (replicate 30 CHR ''x'')\<rparr>,
      \<lparr>tag_name = ''meta'',
        attrs = [''name'' \<mapsto> ''description'', ''content'' \<mapsto> replicate 155 CHR ''d''],
        tag_string = None\<rparr>] = Some (replicate 30 CHR ''x'')
   \<and> description_of
     [\<lparr>tag_name = ''title'', attrs = Map.empty, tag_string = Some (replicate 30 CHR ''x'')\<rparr>,
      \<lparr>tag_name = ''meta'',
        attrs = [''name'' \<mapsto> ''description'', ''content'' \<mapsto> replicate 155 CHR ''d''],
        tag_string = None\<rparr>] = Some (replicate 155 CHR ''d'')
   \<and> analyze_meta_tags
     [\<lparr>tag_name = ''title'', attrs = Map.empty, tag_string = Some (replicate 30 CHR ''x'')\<rparr>,
      \<lparr>tag_name = ''meta'',
        attrs = [''name'' \<mapsto> ''description'', ''content'' \<mapsto> replicate 155 CHR ''d''],
        tag_string = None\<rparr>] ! 0 = ''Title tag length is optimal (30 chars)''
   \<and> analyze_meta_tags
     [\<lparr>tag_name = ''title'', attrs = Map.empty, tag_string = Some (replicate 30 CHR ''x'')\<rparr>,
      \<lparr>tag_name = ''meta'',
        attrs = [''name'' \<mapsto> ''description'', ''content'' \<mapsto> replicate 155 CHR ''d''],
        tag_string = None\<rparr>] ! 1 = ''Meta description length is optimal (155 chars)''"
proof -
  define D :: soup where "D =
     [\<lparr>tag_name = ''title'', attrs = Map.empty, tag_string = Some (replicate 30 CHR ''x'')\<rparr>,
      \<lparr>tag_name = ''meta'',
        attrs = [''name'' \<mapsto> ''description'', ''content'' \<mapsto> replicate 155 CHR ''d''],
        tag_string = None\<rparr>]"
  have t: "title_of D = Some (replicate 30 CHR ''x'')"
    by (simp add: D_def title_of_def find_tag_def)
  have d: "description_of D = Some (replicate 155 CHR ''d'')"
    by (simp add: D_def description_of_def find_tag_def attr_is_def)
  have n: "str_nat 30 = ''30''" "str_nat 155 = ''155''" by code_simp+
  from analyze_meta_tags_length_classes [of D "replicate 30 CHR ''x''" "replicate 155 CHR ''d''"] t d
  have "analyze_meta_tags D ! 0 = ''Title tag length is optimal (30 chars)''"
    and "analyze_meta_tags D ! 1 = ''Meta description length is optimal (155 chars)''"
    by (simp_all add: n)
  with t d show ?thesis unfolding D_def by simp
qed

section \<open>Bounds on rounding\<close>

lemma ilog2_bounds:
  assumes "0 < x"
  shows "2 powi (ilog2 x) \<le> x \<and> x < 2 powi (ilog2 x + 1)"
proof -
  obtain p q where pq: "quotient_of x = (p, q)" by (cases "quotient_of x")
  have q: "0 < q" using pq quotient_of_denom_pos by blast
  have x: "x = of_int p / of_int q" using pq quotient_of_div by blast
  have p: "0 < p" using assms q unfolding x by (simp add: zero_less_divide_iff)
  define bp bq where "bp = bitlen p" and "bq = bitlen q"
  have bp1: "1 \<le> bp" using p bitlen_eq_zero_iff[of p] bitlen_nonneg[of p] unfolding bp_def by linarith
  have bq1: "1 \<le> bq" using q bitlen_eq_zero_iff[of q] bitlen_nonneg[of q] unfolding bq_def by linarith
  have pb: "2 ^ nat (bp - 1) \<le> p" "p < 2 ^ nat bp"
    using bitlen_bounds[OF p] unfolding bp_def by auto
  have qb: "2 ^ nat (bq - 1) \<le> q" "q < 2 ^ nat bq"
    using bitlen_bounds[OF q] unfolding bq_def by auto
  have pr: "(2::rat) powi (bp - 1) \<le> of_int p" "(of_int p :: rat) < 2 powi bp"
  proof -
    have "(of_int (2 ^ nat (bp - 1)) :: rat) \<le> of_int p" using pb(1) by (simp only: of_int_le_iff)
    then show "(2::rat) powi (bp - 1) \<le> of_int p" using bp1 by (simp add: power_int_def)
    have "(of_int p :: rat) < of_int (2 ^ nat bp)" using pb(2) by (simp only: of_int_less_iff)
    then show "(of_int p :: rat) < 2 powi bp" using bp1 by (simp add: power_int_def)
  qed
  have qr: "(2::rat) powi (bq - 1) \<le> of_int q" "(of_int q :: rat) < 2 powi bq"
  proof -
    have "(of_int (2 ^ nat (bq - 1)) :: rat) \<le> of_int q" using qb(1) by (simp only: of_int_le_iff)
    then show "(2::rat) powi (bq - 1) \<le> of_int q" using bq1 by (simp add: power_int_def)
    have "(of_int q :: rat) < of_int (2 ^ nat bq)" using qb(2) by (simp only: of_int_less_iff)
    then show "(of_int q :: rat) < 2 powi bq" using bq1 by (simp add: power_int_def)
  qed
  have qpos: "(0::rat) < of_int q" and ppos: "(0::rat) < of_int p" using p q by simp_all
  have lo: "(2::rat) powi (bp - bq - 1) < x"
  proof -
    have "(2::rat) powi (bp - bq - 1) = 2 powi (bp - 1) / 2 powi bq"
      by (simp add: power_int_diff)
    also have "\<dots> \<le> of_int p / 2 powi bq"
      using pr(1) by (simp add: divide_right_mono)
    also have "\<dots> < of_int p / of_int q"
      using qr(2) qpos ppos by (simp add: divide_strict_left_mono)
    finally show ?thesis unfolding x .
  qed
  have hi: "x < (2::rat) powi (bp - bq + 1)"
  proof -
    have "x < 2 powi bp / of_int q"
      unfolding x using pr(2) qpos by (simp add: divide_strict_right_mono)
    also have "\<dots> \<le> 2 powi bp / 2 powi (bq - 1)"
      using qr(1) qpos by (intro divide_left_mono mult_pos_pos) simp_all
    also have "\<dots> = 2 powi (bp - bq + 1)"
      by (simp add: power_int_diff power_int_add)
    finally show ?thesis .
  qed
  have e: "ilog2 x = (if 2 powi (bp - bq) \<le> x then bp - bq else bp - bq - 1)"
    unfolding ilog2_def pq bp_def bq_def by (simp add: Let_def)
  show ?thesis
  proof (cases "2 powi (bp - bq) \<le> x")
    case True
    then show ?thesis using hi by (simp add: e)
  next
    case False
    then show ?thesis using lo by (simp add: e)
  qed
qed

lemma rne_floor_ceiling: "\<lfloor>q\<rfloor> \<le> rne q \<and> rne q \<le> \<lceil>q\<rceil>"
proof -
  have "q - of_int \<lfloor>q\<rfloor> \<noteq> 0 \<Longrightarrow> \<lceil>q\<rceil> = \<lfloor>q\<rfloor> + 1"
    by (metis ceiling_altdef eq_iff_diff_eq_0)
  moreover have "\<lfloor>q\<rfloor> \<le> \<lceil>q\<rceil>" by simp
  ultimately show ?thesis
    by (auto simp: rne_def Let_def)
qed

lemma rne_le_int: "q \<le> of_int M \<Longrightarrow> rne q \<le> M"
  using rne_floor_ceiling [of q] by (meson ceiling_le order_trans)

lemma rne_ge_int: "of_int M \<le> q \<Longrightarrow> M \<le> rne q"
  using rne_floor_ceiling [of q] by (meson le_floor_iff order_trans)

lemma fl_positive:
  assumes "0 < x"
  shows "fl x = of_int (rne (x / 2 powi (ilog2 x - 52))) * 2 powi (ilog2 x - 52)"
  using assms by (simp add: fl_def Let_def)

lemma fl_pos:
  assumes "0 < x"
  shows "0 < fl x"
proof -
  define u :: rat where "u = 2 powi (ilog2 x - 52)"
  have u: "0 < u" by (simp add: u_def)
  have "2 powi (ilog2 x) \<le> x" using ilog2_bounds [OF assms] by simp
  then have "2 powi (ilog2 x) / u \<le> x / u" using u by (simp add: divide_right_mono)
  moreover have "2 powi (ilog2 x) / u = of_int (2 ^ 52)"
    by (simp add: u_def power_int_diff)
  ultimately have "of_int (2 ^ 52) \<le> x / u" by simp
  then have "2 ^ 52 \<le> rne (x / u)" by (rule rne_ge_int)
  then have "0 < rne (x / u)" by simp
  then show ?thesis
    unfolding fl_positive [OF assms] u_def [symmetric] using u by simp
qed

lemma ilog2_less:
  assumes "0 < x" "x < 2 powi n"
  shows "ilog2 x < n"
proof (rule ccontr)
  assume "\<not> ilog2 x < n"
  then have "n \<le> ilog2 x" by simp
  then have "(2::rat) powi n \<le> 2 powi (ilog2 x)" by (simp add: power_int_increasing)
  with ilog2_bounds [OF assms(1)] assms(2) show False by simp
qed

lemma fl_le_int:
  assumes "0 < x" "x \<le> of_int m" "m < 2 ^ 53"
  shows "fl x \<le> of_int m"
proof -
  define u :: rat where "u = 2 powi (ilog2 x - 52)"
  have u: "0 < u" by (simp add: u_def)
  have "x < 2 powi 53"
  proof -
    have "(of_int m :: rat) < of_int (2 ^ 53)" using assms(3) by (simp only: of_int_less_iff)
    then show ?thesis using assms(2) by simp
  qed
  then have e: "ilog2 x < 53" using ilog2_less [OF assms(1)] by simp
  define k where "k = nat (52 - ilog2 x)"
  have "inverse u = 2 powi (int k)"
    using e by (simp add: u_def k_def power_int_minus [symmetric])
  then have iu: "inverse u = of_int (2 ^ k)" by simp
  have "x / u \<le> of_int m / u" using assms(2) u by (simp add: divide_right_mono)
  also have "of_int m / u = of_int (m * 2 ^ k)"
    by (simp add: divide_inverse iu)
  finally have "rne (x / u) \<le> m * 2 ^ k" by (rule rne_le_int)
  then have "(of_int (rne (x / u)) :: rat) \<le> of_int (m * 2 ^ k)" by (simp only: of_int_le_iff)
  then have "of_int (rne (x / u)) * u \<le> of_int (m * 2 ^ k) * u"
    using u by (simp add: mult_right_mono)
  also have "of_int (m * 2 ^ k) * u = of_int m * (inverse u * u)" by (simp add: iu)
  also have "\<dots> = of_int m" using u by simp
  finally show ?thesis unfolding fl_positive [OF assms(1)] u_def [symmetric] .
qed

lemma rne_half: "\<bar>of_int (rne q) - q\<bar> \<le> 1 / 2"
proof -
  have "of_int \<lfloor>q\<rfloor> \<le> q" "q < of_int \<lfloor>q\<rfloor> + 1" by linarith+
  then show ?thesis
    by (auto simp: rne_def Let_def abs_le_iff)
qed

lemma fl_rel_error:
  assumes "0 < x"
  shows "\<bar>fl x - x\<bar> \<le> x * 2 powi (- 53)"
proof -
  define u :: rat where "u = 2 powi (ilog2 x - 52)"
  have u: "0 < u" by (simp add: u_def)
  have "fl x - x = (of_int (rne (x / u)) - x / u) * u"
    unfolding fl_positive [OF assms] u_def [symmetric] using u by (simp add: algebra_simps)
  then have "\<bar>fl x - x\<bar> = \<bar>of_int (rne (x / u)) - x / u\<bar> * u"
    using u by (simp add: abs_mult)
  also have "\<dots> \<le> 1 / 2 * u"
    using rne_half [of "x / u"] u by (intro mult_right_mono) simp_all
  also have "1 / 2 * u = 2 powi (ilog2 x) * 2 powi (- 53)"
    by (simp add: u_def power_int_diff power_int_minus)
  also have "\<dots> \<le> x * 2 powi (- 53)"
    using ilog2_bounds [OF assms] by (intro mult_right_mono) simp_all
  finally show ?thesis .
qed

section \<open>The frequency table\<close>

lemma headings_h1: "map_of (headings soup) ''h1'' = Some (count_tag soup ''h1'')"
proof -
  have "str_nat 1 = ''1''" by code_simp
  then show ?thesis by (simp add: headings_def)
qed

lemma bump_sum: "sum_list (map snd (bump f w)) = sum_list (map snd f) + 1"
  by (induction f w rule: bump.induct) auto

lemma bump_pos: "\<forall>p\<in>set f. 1 \<le> snd p \<Longrightarrow> \<forall>p\<in>set (bump f w). 1 \<le> snd p"
  by (induction f w rule: bump.induct) auto

lemma foldl_bump_sum:
  "sum_list (map snd (foldl (\<lambda>freq word. if 3 < length word then bump freq (lower word) else freq)
       f ws))
     = sum_list (map snd f) + length (filter (\<lambda>w. 3 < length w) ws)"
  by (induction ws arbitrary: f) (auto simp: bump_sum)

lemma foldl_bump_pos:
  "\<forall>p\<in>set f. 1 \<le> snd p \<Longrightarrow>
   \<forall>p\<in>set (foldl (\<lambda>freq word. if 3 < length word then bump freq (lower word) else freq)
              f ws). 1 \<le> snd p"
proof (induction ws arbitrary: f)
  case Nil
  then show ?case by simp
next
  case (Cons w ws)
  show ?case
  proof (cases "3 < length w")
    case True
    with Cons.IH [OF bump_pos [OF Cons.prems]] show ?thesis by simp
  next
    case False
    with Cons.IH [OF Cons.prems] show ?thesis by simp
  qed
qed

lemma word_freq_counts:
  assumes "(w, c) \<in> set (word_freq words)"
  shows "1 \<le> c" and "c \<le> length words"
proof -
  have "\<forall>p\<in>set (word_freq words). 1 \<le> snd p"
    unfolding word_freq_def by (rule foldl_bump_pos) simp
  with assms show "1 \<le> c" by force
  have "c \<in> set (map snd (word_freq words))" using assms by force
  then have "c \<le> sum_list (map snd (word_freq words))" by (simp add: member_le_sum_list)
  also have "\<dots> = length (filter (\<lambda>w. 3 < length w) words)"
    unfolding word_freq_def by (simp add: foldl_bump_sum)
  also have "\<dots> \<le> length words" by simp
  finally show "c \<le> length words" .
qed

lemma top_keywords_counts:
  assumes "(w, c) \<in> set (top_keywords words)"
  shows "1 \<le> c" and "c \<le> length words"
proof -
  have "(w, c) \<in> set (word_freq words)"
    using assms set_take_subset unfolding top_keywords_def by fastforce
  then show "1 \<le> c" and "c \<le> length words" by (rule word_freq_counts)+
qed

lemma truediv_count:
  assumes "1 \<le> c" "c \<le> n"
  shows "truediv (int c) (int n) = Inr (fl (of_nat c / of_nat n))"
proof -
  have x: "(0::rat) < of_nat c / of_nat n" "(of_nat c / of_nat n :: rat) \<le> of_int 1"
    using assms by simp_all
  have "0 < fl (of_nat c / of_nat n)" "fl (of_nat c / of_nat n) \<le> 1"
    using fl_pos [OF x(1)] fl_le_int [OF x] by simp_all
  then have "\<bar>fl (of_nat c / of_nat n)\<bar> < 2 ^ 1024" by simp
  moreover have "int n \<noteq> 0" using assms by simp
  ultimately show ?thesis by (simp add: truediv_def)
qed

lemma keyword_findings_total:
  assumes "\<forall>p\<in>set kws. 1 \<le> snd p \<and> snd p \<le> word_count"
  shows "keyword_findings word_count kws =
     Inr (map (\<lambda>(w, c). keyword_finding w (fmul (fl (of_nat c / of_nat word_count)) 100) c) kws)"
  using assms
proof (induction kws)
  case Nil
  then show ?case by simp
next
  case (Cons p kws)
  obtain w c where p: "p = (w, c)" by (cases p)
  from Cons.prems have "1 \<le> c" "c \<le> word_count" by (simp_all add: p)
  then have "word_count \<noteq> 0" by simp
  moreover from Cons have "keyword_findings word_count kws =
     Inr (map (\<lambda>(w, c). keyword_finding w (fmul (fl (of_nat c / of_nat word_count)) 100) c) kws)"
    by simp
  ultimately show ?case
    using truediv_count [OF \<open>1 \<le> c\<close> \<open>c \<le> word_count\<close>] by (simp add: p)
qed

section \<open>No division by zero\<close>

lemma density_range:
  assumes "1 \<le> c" "c \<le> n"
  shows "0 < fmul (fl (of_nat c / of_nat n)) 100 \<and> fmul (fl (of_nat c / of_nat n)) 100 \<le> 100"
proof -
  have x: "(0::rat) < of_nat c / of_nat n" "(of_nat c / of_nat n :: rat) \<le> of_int 1"
    using assms by simp_all
  have q: "0 < fl (of_nat c / of_nat n)" "fl (of_nat c / of_nat n) \<le> of_int 1"
    using fl_pos [OF x(1)] fl_le_int [OF x] by simp_all
  have y: "0 < fl (of_nat c / of_nat n) * 100" "fl (of_nat c / of_nat n) * 100 \<le> of_int 100"
    using q by simp_all
  show ?thesis
    unfolding fmul_def using fl_pos [OF y(1)] fl_le_int [OF y] by simp
qed

text \<open>
  Claim C10.  The Content extractor never fails with a division by zero: it returns a
  list of findings for every document and every extracted text.  Each of the top
  keywords of a token list has a count of at least 1 that is at most the number of
  tokens, so the division \<open>count / word_count\<close> is defined, and the density computed
  from it is greater than 0 and at most 100.
\<close>

theorem analyze_content_density_defined:
  "(\<exists>fs. analyze_content soup text_content = Inr fs)
   \<and> (\<forall>p\<in>set (top_keywords words).
        1 \<le> snd p \<and> snd p \<le> length words
        \<and> (\<exists>q. truediv (int (snd p)) (int (length words)) = Inr q
                \<and> 0 < fmul q 100 \<and> fmul q 100 \<le> 100))"
proof (intro conjI ballI)
  have k: "\<exists>fs. keyword_findings (length ws) (top_keywords ws) = Inr fs" for ws
    by (rule exI, rule keyword_findings_total) (auto dest: top_keywords_counts)
  show "\<exists>fs. analyze_content soup text_content = Inr fs"
  proof (cases text_content)
    case None
    then show ?thesis by (simp add: analyze_content_def)
  next
    case (Some t)
    from k [of "split t"] obtain fs
      where "keyword_findings (length (split t)) (top_keywords (split t)) = Inr fs" ..
    then show ?thesis by (simp add: analyze_content_def Some Let_def)
  qed
next
  fix p assume p: "p \<in> set (top_keywords words)"
  then have c: "1 \<le> snd p" "snd p \<le> length words"
    using top_keywords_counts [of "fst p" "snd p" words] by simp_all
  then show "1 \<le> snd p" "snd p \<le> length words" .
  have n: "int (length words) \<noteq> 0" using c by (cases words) simp_all
  have "truediv (int (snd p)) (int (length words))
          = Inr (fl (of_nat (snd p) / of_nat (length words)))"
    by (rule truediv_count [OF c])
  with density_range [OF c]
  show "\<exists>q. truediv (int (snd p)) (int (length words)) = Inr q
          \<and> 0 < fmul q 100 \<and> fmul q 100 \<le> 100"
    by blast
qed

theorem analyze_content_density_defined_witness:
  "(''beta'', 2) \<in> set (top_keywords [''Delta'', ''beta'', ''Beta'', ''cat''])
   \<and> (1::nat) \<le> 2 \<and> (2::nat) \<le> length [''Delta'', ''beta'', ''Beta'', ''cat'']
   \<and> (\<exists>q. truediv 2 4 = Inr q \<and> 0 < fmul q 100 \<and> fmul q 100 \<le> 100)"
proof -
  have m: "(''beta'', 2) \<in> set (top_keywords [''Delta'', ''beta'', ''Beta'', ''cat''])"
    by code_simp
  from analyze_content_density_defined [of "[]" None "[''Delta'', ''beta'', ''Beta'', ''cat'']"]
  have "\<forall>p\<in>set (top_keywords [''Delta'', ''beta'', ''Beta'', ''cat'']).
        1 \<le> snd p \<and> snd p \<le> length [''Delta'', ''beta'', ''Beta'', ''cat'']
        \<and> (\<exists>q. truediv (int (snd p)) (int (length [''Delta'', ''beta'', ''Beta'', ''cat''])) = Inr q
                \<and> 0 < fmul q 100 \<and> fmul q 100 \<le> 100)"
    by (rule conjunct2)
  from bspec [OF this m] m show ?thesis by simp
qed

section \<open>Content findings without extracted text\<close>

lemma content_score:
  "content (calculate_scores ma ca ta sa sea la)
     = sub_score 10 [''missing'', ''too short'', ''multiple''] ca"
  by (simp add: calculate_scores_def Let_def clamp_sub_score [symmetric])

text \<open>
  Claim C9.  When the extracted text is absent or empty the Content extractor still
  returns: its findings are exactly the heading findings followed by the image findings,
  among them the heading-structure summary and the image total; none of them is a
  word-count finding, the keyword header or a keyword-density line; and the content
  sub-score is the sub-score of just these findings.
\<close>

theorem analyze_content_without_text:
  "analyze_content soup None = Inr (heading_findings soup @ image_findings soup)
   \<and> analyze_content soup (Some []) = Inr (heading_findings soup @ image_findings soup)
   \<and> ''Heading structure: ''
         @ join '', '' (map (\<lambda>(k, v). k @ '': '' @ str_nat v)
                         (filter (\<lambda>(k, v). 0 < v) (headings soup)))
       \<in> set (heading_findings soup)
   \<and> ''Total images: '' @ str_nat (count_tag soup ''img'') \<in> set (image_findings soup)
   \<and> (\<forall>f\<in>set (heading_findings soup @ image_findings soup).
        \<not> startswith f ''Content is too short'' \<and> \<not> startswith f ''Good content length''
        \<and> f \<noteq> ''Top 5 keywords and their density:'' \<and> \<not> startswith f ''- '')
   \<and> content (calculate_scores ma (heading_findings soup @ image_findings soup) ta sa sea la)
       = sub_score 10 [''missing'', ''too short'', ''multiple'']
           (heading_findings soup @ image_findings soup)"
proof (intro conjI ballI)
  fix f assume f: "f \<in> set (heading_findings soup @ image_findings soup)"
  have h: "\<forall>f\<in>set (heading_findings soup).
        \<not> startswith f ''Content is too short'' \<and> \<not> startswith f ''Good content length''
        \<and> f \<noteq> ''Top 5 keywords and their density:'' \<and> \<not> startswith f ''- ''"
    by (auto simp: heading_findings_def Let_def)
  have i: "\<forall>f\<in>set (image_findings soup).
        \<not> startswith f ''Content is too short'' \<and> \<not> startswith f ''Good content length''
        \<and> f \<noteq> ''Top 5 keywords and their density:'' \<and> \<not> startswith f ''- ''"
    by (auto simp: image_findings_def Let_def)
  from f h i
  have "\<not> startswith f ''Content is too short'' \<and> \<not> startswith f ''Good content length''
        \<and> f \<noteq> ''Top 5 keywords and their density:'' \<and> \<not> startswith f ''- ''"
    by auto
  then show "\<not> startswith f ''Content is too short''" "\<not> startswith f ''Good content length''"
    "f \<noteq> ''Top 5 keywords and their density:''" "\<not> startswith f ''- ''"
    by simp_all
qed (simp_all add: analyze_content_def heading_findings_def image_findings_def count_tag_def
       Let_def content_score)

theorem analyze_content_without_text_witness:
  "''Total images: 1''
     \<in> set (heading_findings
               [\<lparr>tag_name = ''h1'', attrs = Map.empty, tag_string = Some ''News''\<rparr>,
                \<lparr>tag_name = ''img'', attrs = [''alt'' \<mapsto> ''logo''], tag_string = None\<rparr>]
            @ image_findings
               [\<lparr>tag_name = ''h1'', attrs = Map.empty, tag_string = Some ''News''\<rparr>,
                \<lparr>tag_name = ''img'', attrs = [''alt'' \<mapsto> ''logo''], tag_string = None\<rparr>])
   \<and> \<not> startswith ''Total images: 1'' ''Content is too short''
   \<and> \<not> startswith ''Total images: 1'' ''- ''
   \<and> analyze_content
         [\<lparr>tag_name = ''h1'', attrs = Map.empty, tag_string = Some ''News''\<rparr>,
          \<lparr>tag_name = ''img'', attrs = [''alt'' \<mapsto> ''logo''], tag_string = None\<rparr>] None
       = Inr [''Heading structure: h1: 1'', ''Total images: 1'']"
proof -
  define D :: soup where
    "D = [\<lparr>tag_name = ''h1'', attrs = Map.empty, tag_string = Some ''News''\<rparr>,
          \<lparr>tag_name = ''img'', attrs = [''alt'' \<mapsto> ''logo''], tag_string = None\<rparr>]"
  have n: "str_nat 1 = ''1''" "str_nat 2 = ''2''" "str_nat 3 = ''3''" "str_nat 4 = ''4''"
    "str_nat 5 = ''5''" "str_nat 6 = ''6''"
    by code_simp+
  have n1: "str_nat (Suc 0) = ''1''" using n(1) by simp
  have e: "heading_findings D @ image_findings D
             = [''Heading structure: h1: 1'', ''Total images: 1'']"
    by (simp add: D_def heading_findings_def image_findings_def headings_def count_tag_def
          find_all_def get_or_def endswith_def n n1 Let_def)
  have m: "''Total images: 1'' \<in> set (heading_findings D @ image_findings D)"
    by (simp only: e) simp
  note t = analyze_content_without_text [of D "[]" "[]" "[]" "[]" "[]"]
  from t have "analyze_content D None = Inr (heading_findings D @ image_findings D)"
    by (rule conjunct1)
  moreover from t have "\<forall>f\<in>set (heading_findings D @ image_findings D).
        \<not> startswith f ''Content is too short'' \<and> \<not> startswith f ''Good content length''
        \<and> f \<noteq> ''Top 5 keywords and their density:'' \<and> \<not> startswith f ''- ''"
    by blast
  ultimately show ?thesis
    using m unfolding e D_def [symmetric] by auto
qed

section \<open>The frequency table as a function of the tokens\<close>

lemma first_occurrences_snoc:
  "first_occurrences (xs @ [x]) = first_occurrences xs @ (if x \<in> set xs then [] else [x])"
  by (simp add: first_occurrences_def)

lemma first_occurrences_distinct: "distinct (first_occurrences xs)"
  by (simp add: first_occurrences_def)

lemma first_occurrences_set: "set (first_occurrences xs) = set xs"
  by (simp add: first_occurrences_def)

lemma bump_present:
  "distinct ks \<Longrightarrow> x \<in> set ks \<Longrightarrow>
   bump (map (\<lambda>k. (k, f k)) ks) x = map (\<lambda>k. (k, if k = x then f k + 1 else f k)) ks"
  by (induction ks) auto

lemma bump_absent:
  "x \<notin> set ks \<Longrightarrow> bump (map (\<lambda>k. (k, f k)) ks) x = map (\<lambda>k. (k, f k)) ks @ [(x, 1)]"
  by (induction ks) auto

lemma bump_table:
  "bump (map (\<lambda>k. (k, count_list ws k)) (first_occurrences ws)) x
     = map (\<lambda>k. (k, count_list (ws @ [x]) k)) (first_occurrences (ws @ [x]))"
proof (cases "x \<in> set ws")
  case True
  then have "x \<in> set (first_occurrences ws)" by (simp add: first_occurrences_set)
  from bump_present [OF first_occurrences_distinct this]
  show ?thesis using True by (simp add: first_occurrences_snoc)
next
  case False
  then have n: "x \<notin> set (first_occurrences ws)" by (simp add: first_occurrences_set)
  have "\<forall>k\<in>set (first_occurrences ws). x \<noteq> k" using n by auto
  then show ?thesis
    using False by (simp add: bump_absent [OF n] first_occurrences_snoc count_list_0_iff)
qed

lemma word_freq_table: "word_freq words = frequency_table words"
proof (induction words rule: rev_induct)
  case Nil
  then show ?case by (simp add: word_freq_def frequency_table_def first_occurrences_def)
next
  case (snoc w words)
  have step: "word_freq (words @ [w])
       = (if 3 < length w then bump (word_freq words) (lower w) else word_freq words)"
    by (simp add: word_freq_def)
  show ?case
  proof (cases "3 < length w")
    case True
    then show ?thesis
      unfolding step snoc.IH by (simp add: frequency_table_def Let_def bump_table)
  next
    case False
    then show ?thesis
      unfolding step snoc.IH by (simp add: frequency_table_def)
  qed
qed

lemma top_keywords_ranking: "top_keywords words = take 5 (ranking words)"
proof -
  have "(\<lambda>(w, c). - int c) = (\<lambda>p :: string \<times> nat. - int (snd p))" by auto
  then show ?thesis by (simp add: top_keywords_def ranking_def word_freq_table)
qed

lemma ranking_sorted: "sorted_wrt (\<lambda>p q. snd q \<le> snd p) (ranking words)"
proof -
  have "sorted (map (\<lambda>p. - int (snd p)) (ranking words))"
    unfolding ranking_def by (rule sorted_sort_key)
  then show ?thesis by (simp add: sorted_map)
qed

lemma ranking_stable:
  "filter (\<lambda>p. snd p = n) (ranking words) = filter (\<lambda>p. snd p = n) (frequency_table words)"
  using sort_key_stable [of "\<lambda>p. - int (snd p)" "- int n" "frequency_table words"]
  by (simp add: ranking_def)

section \<open>Tokens\<close>

lemma split_from_concat: "concat (split_from s word) = rev word @ filter (\<lambda>c. \<not> isspace c) s"
  by (induction s arbitrary: word) auto

lemma split_from_tokens:
  "\<forall>c\<in>set word. \<not> isspace c \<Longrightarrow>
   \<forall>w\<in>set (split_from s word). w \<noteq> [] \<and> (\<forall>c\<in>set w. \<not> isspace c)"
proof (induction s arbitrary: word)
  case Nil
  then show ?case by simp
next
  case (Cons a s)
  have empty: "\<forall>w\<in>set (split_from s []). w \<noteq> [] \<and> (\<forall>c\<in>set w. \<not> isspace c)"
    by (rule Cons.IH) simp
  show ?case
  proof (cases "isspace a")
    case True
    then show ?thesis using empty Cons.prems by simp
  next
    case False
    then have "\<forall>c\<in>set (a # word). \<not> isspace c" using Cons.prems by simp
    from Cons.IH [OF this] show ?thesis using False by simp
  qed
qed

section \<open>Accuracy of the density\<close>

lemma density_error:
  assumes "1 \<le> c" "c \<le> n"
  shows "\<bar>fmul (fl (of_nat c / of_nat n)) 100 - 100 * of_nat c / of_nat n\<bar> \<le> 2 powi (- 45)"
proof -
  define x :: rat where "x = of_nat c / of_nat n"
  define a where "a = fl x"
  define e :: rat where "e = 2 powi (- 53)"
  have e: "0 \<le> e" by (simp add: e_def)
  have x: "0 < x" "x \<le> of_int 1" using assms by (simp_all add: x_def)
  have a: "0 < a" "a \<le> 1" using fl_pos [OF x(1)] fl_le_int [OF x] by (simp_all add: a_def)
  have "\<bar>a - x\<bar> \<le> x * e" unfolding a_def e_def by (rule fl_rel_error [OF x(1)])
  also have "x * e \<le> 1 * e" using x(2) e by (intro mult_right_mono) simp_all
  finally have 1: "\<bar>a - x\<bar> \<le> e" by simp
  have y: "0 < a * 100" using a by simp
  have "\<bar>fl (a * 100) - a * 100\<bar> \<le> a * 100 * e" unfolding e_def by (rule fl_rel_error [OF y])
  also have "a * 100 * e \<le> 1 * 100 * e" using a(2) e by (intro mult_right_mono) simp_all
  finally have 2: "\<bar>fl (a * 100) - a * 100\<bar> \<le> 100 * e" by simp
  have "\<bar>fl (a * 100) - 100 * x\<bar> \<le> \<bar>fl (a * 100) - a * 100\<bar> + 100 * \<bar>a - x\<bar>"
    by (simp add: abs_le_iff abs_if split: if_splits)
  also have "\<dots> \<le> 100 * e + 100 * e" using 1 2 by simp
  also have "\<dots> \<le> 256 * e" using e by simp
  also have "256 * e = 2 powi (- 45)" by (simp add: e_def power_int_minus)
  finally show ?thesis by (simp add: fmul_def a_def x_def)
qed

section \<open>The printed density\<close>

lemma str_nat_digit: "n < 10 \<Longrightarrow> length (str_nat n) = 1"
  by (subst str_nat.simps) simp

lemma format_f_one:
  assumes "0 \<le> x"
  shows "format_f 1 x
           = str_nat (nat (rne (x * 10)) div 10) @ ''.'' @ str_nat (nat (rne (x * 10)) mod 10)"
proof -
  have "length (str_nat (nat (rne (x * 10)) mod 10)) = 1"
    by (rule str_nat_digit) simp
  then show ?thesis
    using assms by (simp add: format_f_def Let_def)
qed

lemma density_tenths_error:
  assumes "1 \<le> c" "c \<le> n"
  shows "\<bar>of_nat (density_tenths c n) / 10 - fmul (fl (of_nat c / of_nat n)) 100\<bar> \<le> 1 / 20"
proof -
  define d where "d = fmul (fl (of_nat c / of_nat n)) 100"
  have d: "0 < d" using density_range [OF assms] by (simp add: d_def)
  have "of_int 0 \<le> d * 10" using d by simp
  then have "0 \<le> rne (d * 10)" by (rule rne_ge_int)
  then have k: "(of_nat (density_tenths c n) :: rat) = of_int (rne (d * 10))"
    by (simp add: density_tenths_def d_def)
  have "\<bar>of_int (rne (d * 10)) - d * 10\<bar> \<le> 1 / 2" by (rule rne_half)
  then have "\<bar>of_int (rne (d * 10)) / 10 - d\<bar> \<le> 1 / 20"
    by (simp add: abs_le_iff field_simps)
  then show ?thesis by (simp add: k d_def)
qed

section \<open>The tokenizer\<close>

lemma split_from_word:
  "\<forall>c\<in>set w. \<not> isspace c \<Longrightarrow> split_from (w @ s) word = split_from s (rev w @ word)"
  by (induction w arbitrary: word) auto

lemma split_spaces: "\<forall>c\<in>set sp. isspace c \<Longrightarrow> split (sp @ rest) = split rest"
  by (induction sp) (auto simp: split_def)

lemma split_word:
  assumes "w \<noteq> []" "\<forall>c\<in>set w. \<not> isspace c" "isspace c0"
  shows "split (w @ c0 # rest) = w # split rest"
  using assms by (simp add: split_def split_from_word)

lemma split_last:
  assumes "w \<noteq> []" "\<forall>c\<in>set w. \<not> isspace c"
  shows "split w = [w]"
  using assms split_from_word [of w "[]" "[]"] by (simp add: split_def)

lemma split_replicate:
  assumes "w \<noteq> [] \<and> (\<forall>c\<in>set w. \<not> isspace c)"
  shows "split (concat (replicate n (w @ '' '')) @ rest) = replicate n w @ split rest"
proof (induction n)
  case 0
  then show ?case by simp
next
  case (Suc n)
  have "isspace CHR '' ''" by (simp add: isspace_def)
  with assms have "split (w @ CHR '' '' # concat (replicate n (w @ '' '')) @ rest)
          = w # split (concat (replicate n (w @ '' '')) @ rest)"
    by (intro split_word) simp_all
  then show ?case by (simp add: Suc.IH)
qed

lemma remdups_replicate: "remdups (replicate (Suc n) x) = [x]"
  by (induction n) simp_all

lemma first_occurrences_replicate: "0 < n \<Longrightarrow> first_occurrences (replicate n x) = [x]"
  by (cases n) (simp_all add: first_occurrences_def remdups_replicate del: replicate.simps)

lemma count_list_replicate: "count_list (replicate n x) x = n"
  by (induction n) simp_all

section \<open>Keyword density findings\<close>

lemma analyze_content_lines:
  assumes t: "t \<noteq> []"
  shows "analyze_content soup (Some t) =
     Inr (heading_findings soup @ image_findings soup
          @ [if length (split t) < 300
             then ''Content is too short ('' @ str_nat (length (split t))
                    @ '' words, recommended: minimum 300)''
             else ''Good content length: '' @ str_nat (length (split t)) @ '' words'',
             ''Top 5 keywords and their density:'']
          @ map (\<lambda>p. ''- '' @ [CHR 0x27] @ fst p @ [CHR 0x27] @ '': ''
                       @ str_nat (density_tenths (snd p) (length (split t)) div 10) @ ''.''
                       @ str_nat (density_tenths (snd p) (length (split t)) mod 10)
                       @ ''% ('' @ str_nat (snd p) @ '' occurrences)'')
              (take 5 (ranking (split t))))"
proof -
  define N where "N = length (split t)"
  have c: "\<forall>p\<in>set (top_keywords (split t)). 1 \<le> snd p \<and> snd p \<le> N"
    unfolding N_def by (auto dest: top_keywords_counts)
  have line: "(case p of (w, c) \<Rightarrow> keyword_finding w (fmul (fl (of_nat c / of_nat N)) 100) c)
      = ''- '' @ [CHR 0x27] @ fst p @ [CHR 0x27] @ '': ''
          @ str_nat (density_tenths (snd p) N div 10) @ ''.''
          @ str_nat (density_tenths (snd p) N mod 10)
          @ ''% ('' @ str_nat (snd p) @ '' occurrences)''"
    if "p \<in> set (top_keywords (split t))" for p
  proof -
    from c that have "1 \<le> snd p" "snd p \<le> N" by simp_all
    from density_range [OF this]
    have "0 \<le> fmul (fl (of_nat (snd p) / of_nat N)) 100" by simp
    from format_f_one [OF this] show ?thesis
      by (simp add: keyword_finding_def density_tenths_def case_prod_beta)
  qed
  have "keyword_findings N (top_keywords (split t)) =
     Inr (map (\<lambda>(w, c). keyword_finding w (fmul (fl (of_nat c / of_nat N)) 100) c)
            (top_keywords (split t)))"
    by (rule keyword_findings_total [OF c])
  also have "map (\<lambda>(w, c). keyword_finding w (fmul (fl (of_nat c / of_nat N)) 100) c)
            (top_keywords (split t))
      = map (\<lambda>p. ''- '' @ [CHR 0x27] @ fst p @ [CHR 0x27] @ '': ''
               @ str_nat (density_tenths (snd p) N div 10) @ ''.''
               @ str_nat (density_tenths (snd p) N mod 10)
               @ ''% ('' @ str_nat (snd p) @ '' occurrences)'') (top_keywords (split t))"
    by (rule map_cong [OF refl]) (rule line)
  finally have k: "keyword_findings N (top_keywords (split t)) =
     Inr (map (\<lambda>p. ''- '' @ [CHR 0x27] @ fst p @ [CHR 0x27] @ '': ''
               @ str_nat (density_tenths (snd p) N div 10) @ ''.''
               @ str_nat (density_tenths (snd p) N mod 10)
               @ ''% ('' @ str_nat (snd p) @ '' occurrences)'') (take 5 (ranking (split t))))"
    by (simp only: top_keywords_ranking)
  show ?thesis
    using t k unfolding N_def by (simp add: analyze_content_def Let_def)
qed

text \<open>
  Claim C6, as the code has it.  For a non-empty extracted text the Content extractor
  splits the text at whitespace into N tokens, reports the word count, and emits one
  finding for each of the first five entries of the ranking.  The ranking orders the
  frequency table (the lower-cased tokens longer than three characters, each with its
  number of occurrences, in order of first occurrence) by descending count and keeps
  entries of equal count in table order.  A keyword's finding is
  \<open>- 'word': density% (count occurrences)\<close>.  The density is not 100 * count / N
  rounded to one decimal: it is the double \<open>(count / N) * 100\<close>, N counting all
  tokens, printed with one decimal by rounding the double, ties to even.  The double is
  within \<open>2^-45\<close> of 100 * count / N and the printed value within 0.05 of the double.
  The last three parts fix the tokenizer: leading whitespace is dropped, a block of
  non-whitespace characters up to the next whitespace character is one token, and so is
  such a block at the end of the text.
\<close>

theorem analyze_content_keyword_lines:
  "t \<noteq> [] \<Longrightarrow>
   analyze_content soup (Some t) =
     Inr (heading_findings soup @ image_findings soup
          @ [if length (split t) < 300
             then ''Content is too short ('' @ str_nat (length (split t))
                    @ '' words, recommended: minimum 300)''
             else ''Good content length: '' @ str_nat (length (split t)) @ '' words'',
             ''Top 5 keywords and their density:'']
          @ map (\<lambda>p. ''- '' @ [CHR 0x27] @ fst p @ [CHR 0x27] @ '': ''
                       @ str_nat (density_tenths (snd p) (length (split t)) div 10) @ ''.''
                       @ str_nat (density_tenths (snd p) (length (split t)) mod 10)
                       @ ''% ('' @ str_nat (snd p) @ '' occurrences)'')
              (take 5 (ranking (split t))))
   \<and> sorted_wrt (\<lambda>p q. snd q \<le> snd p) (ranking (split t))
   \<and> (\<forall>n. filter (\<lambda>p. snd p = n) (ranking (split t))
            = filter (\<lambda>p. snd p = n) (frequency_table (split t)))
   \<and> (\<forall>p\<in>set (take 5 (ranking (split t))).
         1 \<le> snd p \<and> snd p \<le> length (split t)
         \<and> \<bar>fmul (fl (of_nat (snd p) / of_nat (length (split t)))) 100
              - 100 * of_nat (snd p) / of_nat (length (split t))\<bar> \<le> 2 powi (- 45)
         \<and> \<bar>of_nat (density_tenths (snd p) (length (split t))) / 10
              - fmul (fl (of_nat (snd p) / of_nat (length (split t)))) 100\<bar> \<le> 1 / 20)
   \<and> (\<forall>sp rest. (\<forall>c\<in>set sp. isspace c) \<longrightarrow> split (sp @ rest) = split rest)
   \<and> (\<forall>w c0 rest. w \<noteq> [] \<and> (\<forall>c\<in>set w. \<not> isspace c) \<and> isspace c0
         \<longrightarrow> split (w @ c0 # rest) = w # split rest)
   \<and> (\<forall>w. w \<noteq> [] \<and> (\<forall>c\<in>set w. \<not> isspace c) \<longrightarrow> split w = [w])"
proof (intro conjI allI ballI impI)
  assume "t \<noteq> []"
  then show "analyze_content soup (Some t) =
     Inr (heading_findings soup @ image_findings soup
          @ [if length (split t) < 300
             then ''Content is too short ('' @ str_nat (length (split t))
                    @ '' words, recommended: minimum 300)''
             else ''Good content length: '' @ str_nat (length (split t)) @ '' words'',
             ''Top 5 keywords and their density:'']
          @ map (\<lambda>p. ''- '' @ [CHR 0x27] @ fst p @ [CHR 0x27] @ '': ''
                       @ str_nat (density_tenths (snd p) (length (split t)) div 10) @ ''.''
                       @ str_nat (density_tenths (snd p) (length (split t)) mod 10)
                       @ ''% ('' @ str_nat (snd p) @ '' occurrences)'')
              (take 5 (ranking (split t))))"
    by (rule analyze_content_lines)
next
  show "sorted_wrt (\<lambda>p q. snd q \<le> snd p) (ranking (split t))" by (rule ranking_sorted)
next
  fix n
  show "filter (\<lambda>p. snd p = n) (ranking (split t))
          = filter (\<lambda>p. snd p = n) (frequency_table (split t))"
    by (rule ranking_stable)
next
  fix p assume "p \<in> set (take 5 (ranking (split t)))"
  then have "(fst p, snd p) \<in> set (top_keywords (split t))"
    by (simp add: top_keywords_ranking)
  then have c: "1 \<le> snd p" "snd p \<le> length (split t)"
    by (rule top_keywords_counts)+
  then show "1 \<le> snd p" "snd p \<le> length (split t)" .
  show "\<bar>fmul (fl (of_nat (snd p) / of_nat (length (split t)))) 100
              - 100 * of_nat (snd p) / of_nat (length (split t))\<bar> \<le> 2 powi (- 45)"
    by (rule density_error [OF c])
  show "\<bar>of_nat (density_tenths (snd p) (length (split t))) / 10
              - fmul (fl (of_nat (snd p) / of_nat (length (split t)))) 100\<bar> \<le> 1 / 20"
    by (rule density_tenths_error [OF c])
next
  fix sp rest assume "\<forall>c\<in>set sp. isspace c"
  then show "split (sp @ rest) = split rest" by (rule split_spaces)
next
  fix w c0 rest assume "w \<noteq> [] \<and> (\<forall>c\<in>set w. \<not> isspace c) \<and> isspace c0"
  then show "split (w @ c0 # rest) = w # split rest" by (simp add: split_word)
next
  fix w assume "w \<noteq> [] \<and> (\<forall>c\<in>set w. \<not> isspace c)"
  then show "split w = [w]" by (simp add: split_last)
qed

theorem analyze_content_keyword_lines_witness:
  "''Delta alpha  beta beta the cat Alpha gamma beta delta epsilon zeta zeta'' \<noteq> []
   \<and> analyze_content []
         (Some ''Delta alpha  beta beta the cat Alpha gamma beta delta epsilon zeta zeta'')
       = Inr [''Missing H1 heading (main title)'', ''Heading structure: '', ''Total images: 0'',
              ''Content is too short (13 words, recommended: minimum 300)'',
              ''Top 5 keywords and their density:'',
              ''- '' @ [CHR 0x27] @ ''beta'' @ [CHR 0x27] @ '': 23.1% (3 occurrences)'',
              ''- '' @ [CHR 0x27] @ ''delta'' @ [CHR 0x27] @ '': 15.4% (2 occurrences)'',
              ''- '' @ [CHR 0x27] @ ''alpha'' @ [CHR 0x27] @ '': 15.4% (2 occurrences)'',
              ''- '' @ [CHR 0x27] @ ''zeta'' @ [CHR 0x27] @ '': 15.4% (2 occurrences)'',
              ''- '' @ [CHR 0x27] @ ''gamma'' @ [CHR 0x27] @ '': 7.7% (1 occurrences)'']"
proof -
  define t where
    "t = ''Delta alpha  beta beta the cat Alpha gamma beta delta epsilon zeta zeta''"
  have ne: "t \<noteq> []" by (simp add: t_def)
  have r: "take 5 (ranking (split t))
             = [(''beta'', 3), (''delta'', 2), (''alpha'', 2), (''zeta'', 2), (''gamma'', 1)]"
    unfolding t_def by code_simp
  have n: "length (split t) = 13" unfolding t_def by code_simp
  have d: "density_tenths 3 13 = 231" "density_tenths 2 13 = 154" "density_tenths 1 13 = 77"
    "density_tenths (Suc 0) 13 = 77"
    by code_simp+
  have v: "str_nat 23 = ''23''" "str_nat 15 = ''15''" "str_nat 7 = ''7''" "str_nat 4 = ''4''"
    "str_nat 1 = ''1''" "str_nat 2 = ''2''" "str_nat 3 = ''3''" "str_nat 13 = ''13''"
    "str_nat (Suc 0) = ''1''"
    by code_simp+
  have h: "heading_findings [] @ image_findings []
             = [''Missing H1 heading (main title)'', ''Heading structure: '', ''Total images: 0'']"
    by code_simp
  have "analyze_content [] (Some t)
       = Inr [''Missing H1 heading (main title)'', ''Heading structure: '', ''Total images: 0'',
              ''Content is too short (13 words, recommended: minimum 300)'',
              ''Top 5 keywords and their density:'',
              ''- '' @ [CHR 0x27] @ ''beta'' @ [CHR 0x27] @ '': 23.1% (3 occurrences)'',
              ''- '' @ [CHR 0x27] @ ''delta'' @ [CHR 0x27] @ '': 15.4% (2 occurrences)'',
              ''- '' @ [CHR 0x27] @ ''alpha'' @ [CHR 0x27] @ '': 15.4% (2 occurrences)'',
              ''- '' @ [CHR 0x27] @ ''zeta'' @ [CHR 0x27] @ '': 15.4% (2 occurrences)'',
              ''- '' @ [CHR 0x27] @ ''gamma'' @ [CHR 0x27] @ '': 7.7% (1 occurrences)'']"
    unfolding conjunct1 [OF analyze_content_keyword_lines [OF ne, of "[]"]] n r
    using h by (simp add: d v)
  with ne show ?thesis unfolding t_def by (intro conjI)
qed

text \<open>
  With 23 occurrences among 80 tokens, 100 * 23 / 80 is 28.75, which one decimal place
  renders as 28.8; the double \<open>(23 / 80) * 100\<close> lies just below 28.75 and is printed
  as 28.7.
\<close>

theorem analyze_content_density_rounding_counterexample:
  "analyze_content [] (Some (concat (replicate 23 ''abcd '') @ concat (replicate 57 ''x '')))
     = Inr [''Missing H1 heading (main title)'', ''Heading structure: '', ''Total images: 0'',
            ''Content is too short (80 words, recommended: minimum 300)'',
            ''Top 5 keywords and their density:'',
            ''- '' @ [CHR 0x27] @ ''abcd'' @ [CHR 0x27] @ '': 28.7% (23 occurrences)'']
   \<and> format_f 1 (100 * 23 / 80) = ''28.8''"
proof -
  define t where "t = concat (replicate 23 ''abcd '') @ concat (replicate 57 ''x '')"
  have ne: "t \<noteq> []" by (simp add: t_def)
  have sp: "isspace CHR '' ''" by (simp add: isspace_def)
  have w1: "''abcd'' \<noteq> [] \<and> (\<forall>c\<in>set ''abcd''. \<not> isspace c)" by (simp add: isspace_def)
  have w2: "''x'' \<noteq> [] \<and> (\<forall>c\<in>set ''x''. \<not> isspace c)" by (simp add: isspace_def)
  have "split [] = []" by (simp add: split_def)
  then have "split (concat (replicate 57 ''x '')) = replicate 57 ''x''"
    using split_replicate [of "''x''" 57 "[]"] w2 by simp
  then have s: "split t = replicate 23 ''abcd'' @ replicate 57 ''x''"
    unfolding t_def using split_replicate [of "''abcd''" 23 "concat (replicate 57 ''x '')"] w1
    by simp
  have n: "length (split t) = 80" by (simp add: s)
  have l: "lower ''abcd'' = ''abcd''" by code_simp
  have f: "frequency_table (split t) = [(''abcd'', 23)]"
  proof -
    have "map lower (filter (\<lambda>t. 3 < length t) (split t)) = replicate 23 ''abcd''"
      by (simp add: s l)
    then show ?thesis
      by (simp add: frequency_table_def first_occurrences_replicate count_list_replicate)
  qed
  have r: "take 5 (ranking (split t)) = [(''abcd'', 23)]"
    by (simp add: ranking_def f)
  have d: "density_tenths 23 80 = 287" by code_simp
  have v: "str_nat 28 = ''28''" "str_nat 7 = ''7''" "str_nat 23 = ''23''" "str_nat 80 = ''80''"
    by code_simp+
  have h: "heading_findings [] @ image_findings []
             = [''Missing H1 heading (main title)'', ''Heading structure: '', ''Total images: 0'']"
    by code_simp
  have "analyze_content [] (Some t)
     = Inr [''Missing H1 heading (main title)'', ''Heading structure: '', ''Total images: 0'',
            ''Content is too short (80 words, recommended: minimum 300)'',
            ''Top 5 keywords and their density:'',
            ''- '' @ [CHR 0x27] @ ''abcd'' @ [CHR 0x27] @ '': 28.7% (23 occurrences)'']"
    unfolding analyze_content_lines [OF ne] n r using h by (simp add: d v)
  moreover have "format_f 1 (100 * 23 / 80) = ''28.8''" by code_simp
  ultimately show ?thesis unfolding t_def by (intro conjI)
qed

section \<open>Link classification\<close>

lemma anchors_hrefs:
  "map (\<lambda>link. attrs link ''href'') (find_all soup ''a'' (\<lambda>e. attrs e ''href'' \<noteq> None))
     = map Some (hrefs soup)"
  by (induction soup) (auto simp: find_all_def hrefs_def)

lemma classify_links_resolved:
  assumes "\<forall>h\<in>set (filter (\<lambda>h. h \<noteq> [] \<and> \<not> startswith h ''#'') hs).
             urljoin url h = Inr (J h) \<and> netloc (J h) = Inr (N h)"
  shows "classify_links netloc urljoin url base (map Some hs) =
     Inr (map J (filter (\<lambda>h. N h = base \<or> N h = [])
                   (filter (\<lambda>h. h \<noteq> [] \<and> \<not> startswith h ''#'') hs)),
          map J (filter (\<lambda>h. \<not> (N h = base \<or> N h = []))
                   (filter (\<lambda>h. h \<noteq> [] \<and> \<not> startswith h ''#'') hs)))"
  using assms by (induction hs) auto

lemma classify_links_fails:
  assumes "Some h \<in> set hs" "h \<noteq> []" "\<not> startswith h ''#''"
    and "urljoin url h = Inl e \<or> (\<exists>a. urljoin url h = Inr a \<and> netloc a = Inl e)"
  shows "\<exists>e'. classify_links netloc urljoin url base hs = Inl e'"
  using assms(1)
proof (induction hs)
  case Nil
  then show ?case by simp
next
  case (Cons x hs)
  show ?case
  proof (cases "x = Some h")
    case True
    with assms(2-4) show ?thesis by (auto split: sum.splits)
  next
    case False
    with Cons.prems have "Some h \<in> set hs" by simp
    from Cons.IH [OF this] obtain e' where
      "classify_links netloc urljoin url base hs = Inl e'" ..
    then show ?thesis by (auto split: option.splits sum.splits)
  qed
qed

text \<open>
  Claim C7, as the code has it.  The reported total counts every anchor that has an
  \<open>href\<close>, and anchors whose \<open>href\<close> is empty or starts with \<open>#\<close> are left out of both
  other counts.  If the URL library parses the page URL and resolves and parses every
  remaining \<open>href\<close> (\<open>J h\<close> is the resolved URL of \<open>h\<close> and \<open>N h\<close> its network location),
  each remaining \<open>href\<close> is counted exactly once: as internal when the network location
  of its resolved URL equals that of the page URL or is empty, as external otherwise.
  The comparison is between network locations as strings, with user information, port
  and letter case, not between hosts.  If the library raises on the page URL or on one of
  the remaining \<open>href\<close>s, the extractor raises as well and reports no counts.
\<close>

theorem analyze_links_netloc_classification:
  "(netloc url = Inr base
    \<and> (\<forall>h\<in>set (candidates soup). urljoin url h = Inr (J h) \<and> netloc (J h) = Inr (N h)) \<longrightarrow>
      analyze_links netloc urljoin url soup =
        Inr ([''Total links found: '' @ str_nat (length (hrefs soup)),
              ''Internal links: ''
                @ str_nat (length (filter (\<lambda>h. N h = base \<or> N h = []) (candidates soup))),
              ''External links: ''
                @ str_nat (length (filter (\<lambda>h. \<not> (N h = base \<or> N h = []))
                                     (candidates soup)))]
             @ (if 0 < length (find_all soup ''a'' (attr_is ''rel'' ''nofollow''))
                then [''Links with nofollow: ''
                        @ str_nat (length (find_all soup ''a'' (attr_is ''rel'' ''nofollow'')))]
                else []))
      \<and> classify_links netloc urljoin url base (map Some (hrefs soup)) =
          Inr (map J (filter (\<lambda>h. N h = base \<or> N h = []) (candidates soup)),
               map J (filter (\<lambda>h. \<not> (N h = base \<or> N h = [])) (candidates soup)))
      \<and> length (filter (\<lambda>h. N h = base \<or> N h = []) (candidates soup))
          + length (filter (\<lambda>h. \<not> (N h = base \<or> N h = [])) (candidates soup))
          = length (candidates soup))
   \<and> candidates soup = filter (\<lambda>h. h \<noteq> [] \<and> \<not> startswith h ''#'') (hrefs soup)
   \<and> (netloc url = Inl e \<longrightarrow> analyze_links netloc urljoin url soup = Inl e)
   \<and> (netloc url = Inr base \<and> h \<in> set (candidates soup)
        \<and> (urljoin url h = Inl e \<or> (\<exists>a. urljoin url h = Inr a \<and> netloc a = Inl e)) \<longrightarrow>
        (\<exists>e'. analyze_links netloc urljoin url soup = Inl e'))"
proof (intro conjI impI)
  assume "netloc url = Inr base
    \<and> (\<forall>h\<in>set (candidates soup). urljoin url h = Inr (J h) \<and> netloc (J h) = Inr (N h))"
  then have b: "netloc url = Inr base"
    and r: "\<forall>h\<in>set (candidates soup). urljoin url h = Inr (J h) \<and> netloc (J h) = Inr (N h)"
    by simp_all
  show c: "classify_links netloc urljoin url base (map Some (hrefs soup)) =
       Inr (map J (filter (\<lambda>h. N h = base \<or> N h = []) (candidates soup)),
            map J (filter (\<lambda>h. \<not> (N h = base \<or> N h = [])) (candidates soup)))"
    using classify_links_resolved [of "hrefs soup" urljoin url J netloc N base] r
    by (simp only: candidates_def)
  have l: "length (find_all soup ''a'' (\<lambda>e. attrs e ''href'' \<noteq> None)) = length (hrefs soup)"
    using arg_cong [OF anchors_hrefs [of soup], of length] by simp
  show "analyze_links netloc urljoin url soup =
     Inr ([''Total links found: '' @ str_nat (length (hrefs soup)),
           ''Internal links: ''
             @ str_nat (length (filter (\<lambda>h. N h = base \<or> N h = []) (candidates soup))),
           ''External links: ''
             @ str_nat (length (filter (\<lambda>h. \<not> (N h = base \<or> N h = [])) (candidates soup)))]
          @ (if 0 < length (find_all soup ''a'' (attr_is ''rel'' ''nofollow''))
             then [''Links with nofollow: ''
                     @ str_nat (length (find_all soup ''a'' (attr_is ''rel'' ''nofollow'')))]
             else []))"
    unfolding analyze_links_def Let_def l anchors_hrefs b by (simp add: c)
  show "length (filter (\<lambda>h. N h = base \<or> N h = []) (candidates soup))
       + length (filter (\<lambda>h. \<not> (N h = base \<or> N h = [])) (candidates soup))
       = length (candidates soup)"
    by (rule sum_length_filter_compl)
next
  show "candidates soup = filter (\<lambda>h. h \<noteq> [] \<and> \<not> startswith h ''#'') (hrefs soup)"
    by (rule candidates_def)
next
  assume "netloc url = Inl e"
  then show "analyze_links netloc urljoin url soup = Inl e"
    by (simp add: analyze_links_def)
next
  assume a: "netloc url = Inr base \<and> h \<in> set (candidates soup)
        \<and> (urljoin url h = Inl e \<or> (\<exists>a. urljoin url h = Inr a \<and> netloc a = Inl e))"
  then have h: "Some h \<in> set (map Some (hrefs soup))" "h \<noteq> []" "\<not> startswith h ''#''"
    by (auto simp: candidates_def)
  from a have f: "urljoin url h = Inl e \<or> (\<exists>a. urljoin url h = Inr a \<and> netloc a = Inl e)"
    by simp
  from classify_links_fails
         [where urljoin = urljoin and netloc = netloc and url = url and h = h and e = e
            and base = base and hs = "map Some (hrefs soup)", OF h f]
  obtain e' where
    "classify_links netloc urljoin url base (map Some (hrefs soup)) = Inl e'" ..
  then have "analyze_links netloc urljoin url soup = Inl e'"
    using a unfolding analyze_links_def Let_def anchors_hrefs by simp
  then show "\<exists>e'. analyze_links netloc urljoin url soup = Inl e'" ..
qed

theorem analyze_links_netloc_classification_witness:
  "analyze_links
     (\<lambda>u. Inr (if startswith u ''https://example.com'' then ''example.com''
                else if startswith u ''https://other.org'' then ''other.org'' else []))
     (\<lambda>b h. Inr (if startswith h ''/'' then ''https://example.com'' @ h else h))
     ''https://example.com/blog''
     [\<lparr>tag_name = ''a'', attrs = [''href'' \<mapsto> ''/about''], tag_string = Some ''About''\<rparr>,
      \<lparr>tag_name = ''a'', attrs = [''href'' \<mapsto> ''https://example.com/contact''],
        tag_string = Some ''Contact''\<rparr>,
      \<lparr>tag_name = ''a'', attrs = [''href'' \<mapsto> ''https://other.org''], tag_string = Some ''Other''\<rparr>,
      \<lparr>tag_name = ''a'', attrs = [''href'' \<mapsto> ''#section''], tag_string = Some ''Down''\<rparr>]
   = Inr [''Total links found: 4'', ''Internal links: 2'', ''External links: 1'']
   \<and> analyze_links url_netloc urljoin_absolute ''http://[bad'' [] = Inl ValueError
   \<and> (\<exists>e'. analyze_links url_netloc urljoin_absolute ''https://example.com/blog''
               [\<lparr>tag_name = ''a'', attrs = [''href'' \<mapsto> ''http://[bad''],
                  tag_string = None\<rparr>] = Inl e')"
proof -
  define netloc :: "string \<Rightarrow> error + string" where
    "netloc = (\<lambda>u. Inr (if startswith u ''https://example.com'' then ''example.com''
                else if startswith u ''https://other.org'' then ''other.org'' else []))"
  define urljoin :: "string \<Rightarrow> string \<Rightarrow> error + string" where
    "urljoin = (\<lambda>b h. Inr (if startswith h ''/'' then ''https://example.com'' @ h else h))"
  define J :: "string \<Rightarrow> string" where
    "J = (\<lambda>h. if startswith h ''/'' then ''https://example.com'' @ h else h)"
  define N :: "string \<Rightarrow> string" where
    "N = (\<lambda>h. if startswith (J h) ''https://example.com'' then ''example.com''
                else if startswith (J h) ''https://other.org'' then ''other.org'' else [])"
  define D :: soup where "D =
     [\<lparr>tag_name = ''a'', attrs = [''href'' \<mapsto> ''/about''], tag_string = Some ''About''\<rparr>,
      \<lparr>tag_name = ''a'', attrs = [''href'' \<mapsto> ''https://example.com/contact''],
        tag_string = Some ''Contact''\<rparr>,
      \<lparr>tag_name = ''a'', attrs = [''href'' \<mapsto> ''https://other.org''], tag_string = Some ''Other''\<rparr>,
      \<lparr>tag_name = ''a'', attrs = [''href'' \<mapsto> ''#section''], tag_string = Some ''Down''\<rparr>]"
  have h: "hrefs D = [''/about'', ''https://example.com/contact'', ''https://other.org'', ''#section'']"
    by (simp add: D_def hrefs_def)
  have c: "candidates D = [''/about'', ''https://example.com/contact'', ''https://other.org'']"
    by (simp add: candidates_def h)
  have b: "netloc ''https://example.com/blog'' = Inr ''example.com''"
    by (simp add: netloc_def)
  have r: "\<forall>h\<in>set (candidates D). urljoin ''https://example.com/blog'' h = Inr (J h)
             \<and> netloc (J h) = Inr (N h)"
    by (simp add: c urljoin_def netloc_def J_def N_def)
  have n: "find_all D ''a'' (attr_is ''rel'' ''nofollow'') = []"
    by (simp add: D_def find_all_def attr_is_def)
  have i: "filter (\<lambda>h. N h = ''example.com'' \<or> N h = []) (candidates D)
             = [''/about'', ''https://example.com/contact'']"
    by (simp add: c N_def J_def)
  have x: "filter (\<lambda>h. \<not> (N h = ''example.com'' \<or> N h = [])) (candidates D)
             = [''https://other.org'']"
    by (simp add: c N_def J_def)
  have s: "str_nat (Suc (Suc (Suc (Suc 0)))) = ''4''" "str_nat (Suc (Suc 0)) = ''2''"
    "str_nat (Suc 0) = ''1''"
    by code_simp+
  note t = analyze_links_netloc_classification
         [where netloc = netloc and urljoin = urljoin and url = "''https://example.com/blog''"
            and base = "''example.com''" and soup = D and J = J and N = N]
  from t b r have "analyze_links netloc urljoin ''https://example.com/blog'' D =
        Inr ([''Total links found: '' @ str_nat (length (hrefs D)),
              ''Internal links: ''
                @ str_nat (length (filter (\<lambda>h. N h = ''example.com'' \<or> N h = []) (candidates D))),
              ''External links: ''
                @ str_nat (length (filter (\<lambda>h. \<not> (N h = ''example.com'' \<or> N h = []))
                                     (candidates D)))]
             @ (if 0 < length (find_all D ''a'' (attr_is ''rel'' ''nofollow''))
                then [''Links with nofollow: ''
                        @ str_nat (length (find_all D ''a'' (attr_is ''rel'' ''nofollow'')))]
                else []))"
    by blast
  then have 1: "analyze_links netloc urljoin ''https://example.com/blog'' D
          = Inr [''Total links found: 4'', ''Internal links: 2'', ''External links: 1'']"
    unfolding h i x n by (simp add: s)
  have bad: "url_netloc ''http://[bad'' = Inl ValueError" by code_simp
  from analyze_links_netloc_classification
         [where netloc = url_netloc and urljoin = urljoin_absolute and url = "''http://[bad''"
            and soup = "[]" and e = ValueError] bad
  have 2: "analyze_links url_netloc urljoin_absolute ''http://[bad'' [] = Inl ValueError"
    by blast
  define B :: soup where
    "B = [\<lparr>tag_name = ''a'', attrs = [''href'' \<mapsto> ''http://[bad''], tag_string = None\<rparr>]"
  have page: "url_netloc ''https://example.com/blog'' = Inr ''example.com''" by code_simp
  have cb: "''http://[bad'' \<in> set (candidates B)"
    by (simp add: B_def candidates_def hrefs_def)
  have jb: "urljoin_absolute ''https://example.com/blog'' ''http://[bad'' = Inl ValueError"
    by (simp add: urljoin_absolute_def page bad)
  from analyze_links_netloc_classification
         [where netloc = url_netloc and urljoin = urljoin_absolute
            and url = "''https://example.com/blog''" and base = "''example.com''"
            and soup = B and h = "''http://[bad''" and e = ValueError] page cb jb
  have 3: "\<exists>e'. analyze_links url_netloc urljoin_absolute ''https://example.com/blog'' B
                = Inl e'"
    by blast
  from 1 2 3 show ?thesis
    unfolding netloc_def urljoin_def D_def B_def by (intro conjI)
qed

text \<open>
  The page \<open>https://example.com/blog\<close> and the link \<open>https://example.com:443/x\<close> have the
  same host, but the link is counted as external: its network location carries the
  port.
\<close>

theorem analyze_links_same_host_counterexample:
  "analyze_links url_netloc urljoin_absolute ''https://example.com/blog''
     [\<lparr>tag_name = ''a'', attrs = map_of [(''href'', ''https://example.com:443/x'')],
        tag_string = None\<rparr>]
     = Inr [''Total links found: 1'', ''Internal links: 0'', ''External links: 1'']
   \<and> url_hostname ''https://example.com:443/x'' = Inr (Some ''example.com'')
   \<and> url_hostname ''https://example.com/blog'' = Inr (Some ''example.com'')"
  by code_simp

section \<open>Failures of the lookups are absorbed\<close>






end
